theory Spec2Isabelle
  imports Complex_Main "HOL-Library.Log_Nat"
begin

section \<open>Python values used by the photo-frame handler\<close>

text \<open>
  Exceptions are values.  \<open>External\<close> stands for any exception raised inside a library the
  handler calls (Pillow, the Gemini client, the storage client); it carries the exception's
  class name and its message.  Only subclasses of Python's \<open>Exception\<close> are modelled, since
  these are what the \<open>except Exception\<close> clauses of the source catch.
\<close>

datatype exn =
    ZeroDivisionError
  | OverflowError string
  | IndexError
  | External string string

definition and_then :: "exn + 'a \<Rightarrow> ('a \<Rightarrow> exn + 'b) \<Rightarrow> exn + 'b" where
  "and_then r k = (case r of Inl e \<Rightarrow> Inl e | Inr v \<Rightarrow> k v)"

subsection \<open>Double-precision arithmetic\<close>

text \<open>
  A finite Python float is a rational number.  \<open>fl\<close> rounds a rational to the nearest
  binary64 value, ties to even, with 53 significant bits and gradual underflow below
  \<open>2 powi (- 1022)\<close>.  A rounded magnitude of \<open>2 ^ 1024\<close> or more stands for an infinity.
\<close>

definition round_half_even :: "rat \<Rightarrow> int" where
  "round_half_even r =
     (let f = \<lfloor>r\<rfloor>; d = r - of_int f
      in if d < 1 / 2 then f else if 1 / 2 < d then f + 1 else if even f then f else f + 1)"

definition ilog2 :: "rat \<Rightarrow> int" where
  "ilog2 x = (if 1 \<le> x then int (floorlog 2 (nat \<lfloor>x\<rfloor>)) - 1
              else - int (floorlog 2 (nat (\<lceil>1 / x\<rceil> - 1))))"

definition ulp :: "rat \<Rightarrow> rat" where
  "ulp x = 2 powi (max (ilog2 \<bar>x\<bar>) (- 1022) - 52)"

definition fl :: "rat \<Rightarrow> rat" where
  "fl x = (if x = 0 then 0 else sgn x * of_int (round_half_even (\<bar>x\<bar> / ulp x)) * ulp x)"

definition is_inf :: "rat \<Rightarrow> bool" where
  "is_inf x \<longleftrightarrow> 2 ^ 1024 \<le> \<bar>x\<bar>"

definition float_of_int :: "int \<Rightarrow> exn + rat" where
  \<comment> \<open>the conversion applied to the int operand of \<open>int * float\<close>\<close>
  "float_of_int n = (let x = fl (of_int n) in if is_inf x then Inl (OverflowError ''int too large to convert to float'') else Inr x)"

definition truediv :: "int \<Rightarrow> int \<Rightarrow> exn + rat" where
  \<comment> \<open>\<open>a / b\<close> on two ints: the correctly rounded quotient\<close>
  "truediv a b =
     (if b = 0 then Inl ZeroDivisionError
      else let q = fl (of_int a / of_int b)
           in if is_inf q then Inl (OverflowError ''integer division result too large for a float'')
              else Inr q)"

definition int_mul_float :: "int \<Rightarrow> rat \<Rightarrow> exn + rat" where
  \<comment> \<open>\<open>n * x\<close> with an int \<open>n\<close> and a float \<open>x\<close>\<close>
  "int_mul_float n x = and_then (float_of_int n) (\<lambda>f. Inr (fl (f * x)))"

definition int_of_float :: "rat \<Rightarrow> exn + int" where
  \<comment> \<open>\<open>int(x)\<close>: truncation toward zero\<close>
  "int_of_float x =
     (if is_inf x then Inl (OverflowError ''cannot convert float infinity to integer'')
      else Inr (if 0 \<le> x then \<lfloor>x\<rfloor> else \<lceil>x\<rceil>))"

subsection \<open>Strings\<close>

text \<open>
  A Python \<open>str\<close> is a sequence of code points.  A \<open>string\<close> here is a list of \<open>char\<close>, and
  a \<open>char\<close> is a code point below 256 (the Latin-1 range of Unicode), so the strings of the
  model are the Python strings whose code points are all below 256.  On these \<open>strip\<close> and
  \<open>lower\<close> are Python's \<open>str.strip()\<close> and \<open>str.lower()\<close>:

    \<^item> \<open>str.strip()\<close> removes the leading and trailing characters for which \<open>str.isspace()\<close>
      holds; below 256 these are U+0009 to U+000D, U+001C to U+0020, U+0085 (next line) and
      U+00A0 (no-break space);

    \<^item> \<open>str.lower()\<close> maps every cased character to its lowercase mapping; below 256 the
      characters that change are \<open>A\<close> to \<open>Z\<close> and U+00C0 to U+00DE without U+00D7 (the
      multiplication sign), each moved up by 32, and the result is again below 256.
\<close>

definition isspace :: "char \<Rightarrow> bool" where
  "isspace c \<longleftrightarrow>
     (let n = (of_char c :: nat)
      in (9 \<le> n \<and> n \<le> 13) \<or> (28 \<le> n \<and> n \<le> 32) \<or> n = 133 \<or> n = 160)"

definition strip :: "string \<Rightarrow> string" where
  "strip s = rev (dropWhile isspace (rev (dropWhile isspace s)))"

definition lower_char :: "char \<Rightarrow> char" where
  "lower_char c =
     (let n = (of_char c :: nat)
      in if (65 \<le> n \<and> n \<le> 90) \<or> (192 \<le> n \<and> n \<le> 222 \<and> n \<noteq> 215) then char_of (n + 32)
         else c)"

definition lower :: "string \<Rightarrow> string" where
  "lower s = map lower_char s"

definition endswith :: "string \<Rightarrow> string \<Rightarrow> bool" where
  "endswith s suffix \<longleftrightarrow> length suffix \<le> length s \<and> drop (length s - length suffix) s = suffix"

section \<open>Pillow\<close>

text \<open>
  Pillow is not part of the repository.  The operations the handler calls are the fields of
  a record; every call either raises or returns an image.  \<open>paste\<close> updates its receiver in
  place in Python and returns the updated receiver here.
\<close>

datatype fp = Path string | Stream string

datatype resampling = NEAREST | BOX | BILINEAR | HAMMING | BICUBIC | LANCZOS

record 'i pillow =
  im_size :: "'i \<Rightarrow> int \<times> int"
  im_mode :: "'i \<Rightarrow> string"
  Image_open :: "fp \<Rightarrow> exn + 'i"
  Image_new :: "string \<Rightarrow> int \<times> int \<Rightarrow> nat list \<Rightarrow> exn + 'i"
  convert :: "'i \<Rightarrow> string \<Rightarrow> exn + 'i"
  resize :: "'i \<Rightarrow> int \<times> int \<Rightarrow> resampling \<Rightarrow> exn + 'i"
  paste :: "'i \<Rightarrow> 'i \<Rightarrow> (int \<times> int) option \<Rightarrow> 'i option \<Rightarrow> exn + 'i"
  alpha_composite :: "'i \<Rightarrow> 'i \<Rightarrow> exn + 'i"
  split :: "'i \<Rightarrow> exn + 'i list"
  save :: "'i \<Rightarrow> string \<Rightarrow> string \<Rightarrow> nat \<Rightarrow> bool \<Rightarrow> exn + unit"

definition last_item :: "'a list \<Rightarrow> exn + 'a" where
  \<comment> \<open>\<open>xs[-1]\<close>\<close>
  "last_item xs = (if xs = [] then Inl IndexError else Inr (last xs))"

section \<open>main.py\<close>

subsection \<open>resize_image_to_fit\<close>

definition new_dimensions :: "int \<times> int \<Rightarrow> int \<Rightarrow> int \<Rightarrow> exn + int \<times> int" where
  \<comment> \<open>lines 72 to 83: the size passed to \<open>image.resize\<close>\<close>
  "new_dimensions sz target_width target_height =
     (case sz of (original_width, original_height) \<Rightarrow>
        and_then (truediv target_width original_width) (\<lambda>width_ratio.
        and_then (truediv target_height original_height) (\<lambda>height_ratio.
        let scale_ratio = min width_ratio height_ratio in
        and_then (int_mul_float original_width scale_ratio) (\<lambda>w.
        and_then (int_of_float w) (\<lambda>new_width.
        and_then (int_mul_float original_height scale_ratio) (\<lambda>h.
        and_then (int_of_float h) (\<lambda>new_height.
        Inr (new_width, new_height))))))))"

definition resize_image_to_fit :: "'i pillow \<Rightarrow> 'i \<Rightarrow> int \<Rightarrow> int \<Rightarrow> exn + 'i" where
  "resize_image_to_fit L img target_width target_height =
     and_then (new_dimensions (im_size L img) target_width target_height)
       (\<lambda>new_size. resize L img new_size LANCZOS)"

subsection \<open>create_framed_image\<close>

definition center_offsets :: "int \<times> int \<Rightarrow> int \<times> int \<Rightarrow> int \<times> int" where
  \<comment> \<open>lines 50 to 52\<close>
  "center_offsets frame_size user_size =
     (case frame_size of (frame_width, frame_height) \<Rightarrow>
      case user_size of (user_width, user_height) \<Rightarrow>
        ((frame_width - user_width) div 2, (frame_height - user_height) div 2))"

definition alpha_mask :: "'i pillow \<Rightarrow> 'i \<Rightarrow> exn + 'i option" where
  \<comment> \<open>\<open>result.split()[-1] if result.mode == 'RGBA' else None\<close>\<close>
  "alpha_mask L result =
     (if im_mode L result = ''RGBA''
      then and_then (split L result) (\<lambda>bands. and_then (last_item bands) (\<lambda>b. Inr (Some b)))
      else Inr None)"

definition compose_frame :: "'i pillow \<Rightarrow> 'i \<Rightarrow> string \<Rightarrow> exn + 'i" where
  \<comment> \<open>the body of the \<open>try\<close> block, lines 26 to 64\<close>
  "compose_frame L user_image frame_path =
     and_then (Image_open L (Path frame_path)) (\<lambda>frame0.
     and_then (if im_mode L frame0 \<noteq> ''RGBA'' then convert L frame0 ''RGBA'' else Inr frame0)
       (\<lambda>frame.
     case im_size L frame of (frame_width, frame_height) \<Rightarrow>
     let padding = 50;
         target_width = frame_width - 2 * padding;
         target_height = frame_height - 2 * padding in
     and_then (resize_image_to_fit L user_image target_width target_height)
       (\<lambda>user_image_resized.
     and_then (Image_new L ''RGBA'' (frame_width, frame_height) [255, 255, 255, 255])
       (\<lambda>canvas.
     and_then (paste L canvas user_image_resized
                 (Some (center_offsets (frame_width, frame_height)
                          (im_size L user_image_resized))) None)
       (\<lambda>pasted.
     and_then (alpha_composite L pasted frame) (\<lambda>result.
     and_then (Image_new L ''RGB'' (im_size L result) [255, 255, 255]) (\<lambda>final_result.
     and_then (alpha_mask L result) (\<lambda>mask.
     paste L final_result result None mask))))))))"

definition create_framed_image :: "'i pillow \<Rightarrow> 'i \<Rightarrow> string \<Rightarrow> 'i" where
  "create_framed_image L user_image frame_path =
     (case compose_frame L user_image frame_path of
        Inl e \<Rightarrow> user_image
      | Inr final_result \<Rightarrow> final_result)"

subsection \<open>analyze_image_with_gemini\<close>

definition newline :: string where
  "newline = [char_of (10 :: nat)]"

definition quoted :: "string \<Rightarrow> string" where
  "quoted s = [char_of (34 :: nat)] @ s @ [char_of (34 :: nat)]"

definition prompt :: string where
  "prompt =
     newline @
     ''        Analyze this image and check for anything that'' @ [char_of (39 :: nat)] @
     ''s wrong.'' @ newline @
     ''        If there'' @ [char_of (39 :: nat)] @
     ''s something wrong, analyze if the thing that'' @ [char_of (39 :: nat)] @
     ''s broken is a software related issue or something else.'' @ newline @
     ''        If it'' @ [char_of (39 :: nat)] @ ''s a software related issue, return '' @
     quoted ''yes'' @ '', otherwise return '' @ quoted ''no'' @ ''.'' @ newline @
     ''        Only return '' @ quoted ''yes'' @ '' or '' @ quoted ''no'' @
     '', no other text'' @ newline @ ''        ''"

text \<open>
  \<open>gen p img\<close> is the outcome of \<open>model.generate_content([p, img])\<close> followed by reading
  \<open>response.text\<close>: the text, or the exception either step raises.
\<close>

definition analyze_image_with_gemini :: "(string \<Rightarrow> 'i \<Rightarrow> exn + string) \<Rightarrow> 'i \<Rightarrow> string" where
  "analyze_image_with_gemini gen img =
     (case gen prompt img of
        Inr text \<Rightarrow> lower (strip text)
      | Inl e \<Rightarrow> ''no'')"

subsection \<open>The world outside the handler\<close>

text \<open>
  What the handler does to the outside world is recorded as a list of events, in the order
  of the calls.  A call that raises leaves no event.
\<close>

datatype 'i event =
    Classified 'i
  | Composited 'i string
  | File_saved 'i string string nat bool
  | Blob_uploaded string string
  | Blob_made_public string
  | File_removed string

record 'i world =
  pil :: "'i pillow"
  generate_content_text :: "string \<Rightarrow> 'i \<Rightarrow> exn + string"
  strftime_now :: string
  uuid4 :: string
  named_temporary_file :: "string \<Rightarrow> exn + string"
  upload_from_filename :: "string \<Rightarrow> string \<Rightarrow> exn + unit"
  make_public :: "string \<Rightarrow> exn + unit"
  unlink :: "string \<Rightarrow> exn + unit"
  public_url :: "string \<Rightarrow> string"

subsection \<open>upload_to_gcs\<close>

definition upload_to_gcs :: "'i world \<Rightarrow> 'i \<Rightarrow> string \<Rightarrow> (exn + string) \<times> 'i event list" where
  "upload_to_gcs W img filename =
     (case named_temporary_file W ''.webp'' of
        Inl e \<Rightarrow> (Inl e, [])
      | Inr temp_file_path \<Rightarrow>
     (case save (pil W) img temp_file_path ''WEBP'' 85 True of
        Inl e \<Rightarrow> (Inl e, [])
      | Inr _ \<Rightarrow>
     (case upload_from_filename W filename temp_file_path of
        Inl e \<Rightarrow> (Inl e, [File_saved img temp_file_path ''WEBP'' 85 True])
      | Inr _ \<Rightarrow>
     (case make_public W filename of
        Inl e \<Rightarrow> (Inl e, [File_saved img temp_file_path ''WEBP'' 85 True,
                          Blob_uploaded filename temp_file_path])
      | Inr _ \<Rightarrow>
     (case unlink W temp_file_path of
        Inl e \<Rightarrow> (Inl e, [File_saved img temp_file_path ''WEBP'' 85 True,
                          Blob_uploaded filename temp_file_path, Blob_made_public filename])
      | Inr _ \<Rightarrow>
        (Inr (public_url W filename),
         [File_saved img temp_file_path ''WEBP'' 85 True,
          Blob_uploaded filename temp_file_path, Blob_made_public filename,
          File_removed temp_file_path]))))))"

subsection \<open>process_photo\<close>

record file_storage =
  filename :: string
  stream :: string

record request =
  http_method :: string
  files :: "string \<rightharpoonup> file_storage"

datatype json = JBool bool | JString string

datatype body = Text string | Json_dumps "(string \<times> json) list"

type_synonym response = "body \<times> nat \<times> (string \<times> string) list"

definition str :: "exn \<Rightarrow> string" where
  "str e = (case e of
              ZeroDivisionError \<Rightarrow> ''division by zero''
            | OverflowError m \<Rightarrow> m
            | IndexError \<Rightarrow> ''tuple index out of range''
            | External c m \<Rightarrow> m)"

definition select_frame :: "string \<Rightarrow> string \<times> string" where
  \<comment> \<open>lines 188 to 195: \<open>(frame_path, frame_type)\<close>\<close>
  "select_frame analysis_result =
     (if analysis_result = ''yes'' then (''yes.png'', ''yes'') else (''no.png'', ''no''))"

definition storage_key :: "string \<Rightarrow> string \<Rightarrow> string \<Rightarrow> string" where
  \<comment> \<open>lines 201 to 203\<close>
  "storage_key timestamp uuid frame_type =
     ''framed_photos/'' @ timestamp @ ''_'' @ take 8 uuid @ ''_'' @ frame_type @ ''.webp''"

definition preflight_headers :: "(string \<times> string) list" where
  "preflight_headers =
     [(''Access-Control-Allow-Origin'', ''*''),
      (''Access-Control-Allow-Methods'', ''POST''),
      (''Access-Control-Allow-Headers'', ''Content-Type''),
      (''Access-Control-Max-Age'', ''3600'')]"

definition json_headers :: "(string \<times> string) list" where
  "json_headers =
     [(''Access-Control-Allow-Origin'', ''*''),
      (''Content-Type'', ''application/json'')]"

definition failure :: "string \<Rightarrow> nat \<Rightarrow> response" where
  "failure msg code =
     (Json_dumps [(''success'', JBool False), (''error'', JString msg)], code, json_headers)"

definition handle_upload :: "'i world \<Rightarrow> file_storage \<Rightarrow> (exn + response) \<times> 'i event list" where
  \<comment> \<open>lines 177 to 217, inside the handler's \<open>try\<close>\<close>
  "handle_upload W photo_file =
     (case Image_open (pil W) (Stream (stream photo_file)) of
        Inl e \<Rightarrow> (Inl e, [])
      | Inr opened \<Rightarrow>
     (case (if im_mode (pil W) opened \<noteq> ''RGB'' then convert (pil W) opened ''RGB''
            else Inr opened) of
        Inl e \<Rightarrow> (Inl e, [])
      | Inr img \<Rightarrow>
     (let analysis_result = analyze_image_with_gemini (generate_content_text W) img;
          (frame_path, frame_type) = select_frame analysis_result;
          framed_image = create_framed_image (pil W) img frame_path;
          key = storage_key (strftime_now W) (uuid4 W) frame_type;
          before = [Classified img, Composited img frame_path]
      in case upload_to_gcs W framed_image key of
           (Inl e, evs) \<Rightarrow> (Inl e, before @ evs)
         | (Inr image_url, evs) \<Rightarrow>
             (Inr (Json_dumps
                     [(''success'', JBool True),
                      (''imageUrl'', JString image_url),
                      (''frameStyle'', JString frame_type),
                      (''analysisResult'', JString analysis_result),
                      (''message'', JString (''Photo processed successfully with '' @
                                             frame_type @ '' frame''))],
                   200, json_headers),
              before @ evs))))"

definition process_photo :: "'i world \<Rightarrow> request \<Rightarrow> response \<times> 'i event list" where
  "process_photo W req =
     (if http_method req = ''OPTIONS'' then ((Text [], 204, preflight_headers), [])
      else if http_method req \<noteq> ''POST'' then (failure ''Only POST method is allowed'' 405, [])
      else case files req ''photo'' of
        None \<Rightarrow> (failure ''No photo file provided'' 400, [])
      | Some photo_file \<Rightarrow>
          if \<not> (endswith (lower (filename photo_file)) ''.jpg''
                \<or> endswith (lower (filename photo_file)) ''.jpeg''
                \<or> endswith (lower (filename photo_file)) ''.png'')
          then (failure ''Invalid file type. Only JPG, JPEG, and PNG are allowed'' 400, [])
          else case handle_upload W photo_file of
                 (Inr resp, evs) \<Rightarrow> (resp, evs)
               | (Inl e, evs) \<Rightarrow> (failure (''Internal server error: '' @ str e) 500, evs))"

section \<open>test_local.py\<close>

definition tl_resize_image_to_fit :: "'i pillow \<Rightarrow> 'i \<Rightarrow> int \<Rightarrow> int \<Rightarrow> exn + 'i" where
  \<comment> \<open>test_local.py, lines 125 to 145\<close>
  "tl_resize_image_to_fit L img target_width target_height =
     (case im_size L img of (original_width, original_height) \<Rightarrow>
        and_then (truediv target_width original_width) (\<lambda>width_ratio.
        and_then (truediv target_height original_height) (\<lambda>height_ratio.
        let scale_ratio = min width_ratio height_ratio in
        and_then (int_mul_float original_width scale_ratio) (\<lambda>w.
        and_then (int_of_float w) (\<lambda>new_width.
        and_then (int_mul_float original_height scale_ratio) (\<lambda>h.
        and_then (int_of_float h) (\<lambda>new_height.
        resize L img (new_width, new_height) LANCZOS)))))))"

definition tl_create_framed_image :: "'i pillow \<Rightarrow> 'i \<Rightarrow> string \<Rightarrow> 'i" where
  \<comment> \<open>test_local.py, lines 78 to 123\<close>
  "tl_create_framed_image L user_image frame_path =
     (case
        and_then (Image_open L (Path frame_path)) (\<lambda>frame0.
        and_then (if im_mode L frame0 \<noteq> ''RGBA'' then convert L frame0 ''RGBA'' else Inr frame0)
          (\<lambda>frame.
        case im_size L frame of (frame_width, frame_height) \<Rightarrow>
        let padding = 50;
            target_width = frame_width - 2 * padding;
            target_height = frame_height - 2 * padding in
        and_then (tl_resize_image_to_fit L user_image target_width target_height)
          (\<lambda>user_image_resized.
        and_then (Image_new L ''RGBA'' (frame_width, frame_height) [255, 255, 255, 255])
          (\<lambda>canvas.
        case im_size L user_image_resized of (user_width, user_height) \<Rightarrow>
        let x_offset = (frame_width - user_width) div 2;
            y_offset = (frame_height - user_height) div 2 in
        and_then (paste L canvas user_image_resized (Some (x_offset, y_offset)) None)
          (\<lambda>pasted.
        and_then (alpha_composite L pasted frame) (\<lambda>result.
        and_then (Image_new L ''RGB'' (im_size L result) [255, 255, 255]) (\<lambda>final_result.
        and_then
          (if im_mode L result = ''RGBA''
           then and_then (split L result)
                  (\<lambda>bands. and_then (last_item bands) (\<lambda>b. Inr (Some b)))
           else Inr None)
          (\<lambda>mask.
        paste L final_result result None mask))))))))
      of Inl e \<Rightarrow> user_image
       | Inr final_result \<Rightarrow> final_result)"

section \<open>A stand-in for Pillow that tracks sizes and modes\<close>

text \<open>
  Concrete runs of the model need a concrete library.  \<open>bitmap_pillow\<close> keeps the size
  and the mode of every image and nothing else; \<open>resize\<close> and \<open>Image.new\<close> reject the sizes
  Pillow rejects, and \<open>alpha_composite\<close> rejects operands that do not match.
\<close>

datatype bitmap = Bitmap (bm_size: "int \<times> int") (bm_mode: string)

definition bitmap_pillow :: "(fp \<rightharpoonup> bitmap) \<Rightarrow> bitmap pillow" where
  "bitmap_pillow disk =
     \<lparr> im_size = bm_size,
       im_mode = bm_mode,
       Image_open = (\<lambda>f. case disk f of
                            None \<Rightarrow> Inl (External ''FileNotFoundError'' ''No such file or directory'')
                          | Some b \<Rightarrow> Inr b),
       Image_new = (\<lambda>m sz c. if fst sz < 0 \<or> snd sz < 0
                               then Inl (External ''ValueError'' ''Width and height must be >= 0'')
                               else Inr (Bitmap sz m)),
       convert = (\<lambda>b m. Inr (Bitmap (bm_size b) m)),
       resize = (\<lambda>b sz r. if fst sz \<le> 0 \<or> snd sz \<le> 0
                            then Inl (External ''ValueError'' ''height and width must be > 0'')
                            else Inr (Bitmap sz (bm_mode b))),
       paste = (\<lambda>dest src box mask. Inr dest),
       alpha_composite = (\<lambda>a b. if bm_mode a = ''RGBA'' \<and> bm_mode b = ''RGBA''
                                    \<and> bm_size a = bm_size b
                                 then Inr a
                                 else Inl (External ''ValueError'' ''images do not match'')),
       split = (\<lambda>b. Inr (map (\<lambda>c. Bitmap (bm_size b) ''L'') (bm_mode b))),
       save = (\<lambda>b path format quality optimize. Inr ()) \<rparr>"

definition frames_on_disk :: "fp \<rightharpoonup> bitmap" where
  "frames_on_disk =
     [Path ''yes.png'' \<mapsto> Bitmap (600, 400) ''RGBA'',
      Path ''no.png'' \<mapsto> Bitmap (600, 400) ''P'',
      Stream ''photo'' \<mapsto> Bitmap (2000, 1000) ''RGB'',
      Stream ''panorama'' \<mapsto> Bitmap (2000, 1) ''RGB'']"

definition quiet_world :: "(string \<Rightarrow> bitmap \<Rightarrow> exn + string) \<Rightarrow> bitmap world" where
  "quiet_world gen =
     \<lparr> pil = bitmap_pillow frames_on_disk,
       generate_content_text = gen,
       strftime_now = ''20240102_030405'',
       uuid4 = ''1b4e28ba-2fa1-41d2-883f-0016d3cca427'',
       named_temporary_file = (\<lambda>suffix. Inr (''/tmp/tmpab12cd'' @ suffix)),
       upload_from_filename = (\<lambda>name path. Inr ()),
       make_public = (\<lambda>name. Inr ()),
       unlink = (\<lambda>path. Inr ()),
       public_url = (\<lambda>name. ''https://storage.googleapis.com/photo-frame-bucket/'' @ name) \<rparr>"

section \<open>The resizer as the specification words it\<close>

text \<open>
  The specification gives the algorithm over exact numbers: \<open>rw = W / srcWidth\<close>,
  \<open>rh = H / srcHeight\<close>, \<open>scale = min(rw, rh)\<close>, new dimensions
  \<open>floor(srcWidth * scale)\<close> and \<open>floor(srcHeight * scale)\<close>.  This definition follows
  those words; \<open>new_dimensions\<close> above follows the source.
\<close>

definition spec_scale :: "int \<times> int \<Rightarrow> int \<Rightarrow> int \<Rightarrow> rat" where
  "spec_scale src W H =
     (case src of (srcWidth, srcHeight) \<Rightarrow>
        min (of_int W / of_int srcWidth) (of_int H / of_int srcHeight))"

definition spec_new_dimensions :: "int \<times> int \<Rightarrow> int \<Rightarrow> int \<Rightarrow> int \<times> int" where
  "spec_new_dimensions src W H =
     (case src of (srcWidth, srcHeight) \<Rightarrow>
        (\<lfloor>of_int srcWidth * spec_scale src W H\<rfloor>, \<lfloor>of_int srcHeight * spec_scale src W H\<rfloor>))"

text \<open>
  Two output dimensions keep the source's aspect ratio up to independent flooring when some
  scale \<open>s\<close> gives \<open>w = floor(sw * s)\<close> and \<open>h = floor(sh * s)\<close>.  For positive source
  dimensions that is the case exactly when the two intervals of admissible scales overlap.
\<close>

definition floors_of_common_scale :: "int \<times> int \<Rightarrow> int \<times> int \<Rightarrow> bool" where
  "floors_of_common_scale src out =
     (case src of (sw, sh) \<Rightarrow> case out of (w, h) \<Rightarrow>
        w * sh < (h + 1) * sw \<and> h * sw < (w + 1) * sh)"

section \<open>What the handler relies on in Pillow\<close>


section \<open>Basic facts\<close>

lemma and_then_Inl [simp]: "and_then (Inl e) k = Inl e"
  by (simp add: and_then_def)

lemma and_then_Inr [simp]: "and_then (Inr v) k = k v"
  by (simp add: and_then_def)

lemma and_then_eq_Inr: "and_then r k = Inr y \<longleftrightarrow> (\<exists>v. r = Inr v \<and> k v = Inr y)"
  by (cases r) simp_all


section \<open>The test harness duplicates the handler's image functions\<close>

lemma tl_resize_eq: "tl_resize_image_to_fit L img w h = resize_image_to_fit L img w h"
  unfolding tl_resize_image_to_fit_def resize_image_to_fit_def new_dimensions_def
  by (simp add: and_then_def Let_def split: prod.splits sum.splits)

lemma tl_create_eq:
  "tl_create_framed_image L user_image frame_path = create_framed_image L user_image frame_path"
  unfolding tl_create_framed_image_def create_framed_image_def compose_frame_def
    alpha_mask_def center_offsets_def tl_resize_eq
  by (simp add: Let_def split_beta)

text \<open>
  Claim C9.  The functions \<open>create_framed_image\<close> and \<open>resize_image_to_fit\<close> of
  test_local.py return the same result as the functions of the same names in main.py,
  for every library behaviour, source image, frame path and target box.
\<close>

theorem test_local_duplicates_agree:
  "tl_resize_image_to_fit L img w h = resize_image_to_fit L img w h \<and>
   tl_create_framed_image L user_image frame_path = create_framed_image L user_image frame_path"
  by (simp add: tl_resize_eq tl_create_eq)

section \<open>Request validation\<close>

text \<open>
  Claim C8.  A request whose method is neither POST nor OPTIONS is answered with status 405
  and the error message \<open>Only POST method is allowed\<close>, and the handler classifies nothing,
  composes nothing and writes nothing to storage: its list of events is empty.
\<close>

theorem non_post_is_rejected:
  assumes "http_method req \<noteq> ''POST''" and "http_method req \<noteq> ''OPTIONS''"
  shows "process_photo W req =
           ((Json_dumps [(''success'', JBool False),
                         (''error'', JString ''Only POST method is allowed'')],
             405, json_headers), [])"
  using assms by (simp add: process_photo_def failure_def)

theorem non_post_is_rejected_witness:
  "http_method \<lparr>http_method = ''GET'', files = Map.empty\<rparr> \<noteq> ''POST'' \<and>
   http_method \<lparr>http_method = ''GET'', files = Map.empty\<rparr> \<noteq> ''OPTIONS'' \<and>
   process_photo (quiet_world (\<lambda>p i. Inr ''yes'')) \<lparr>http_method = ''GET'', files = Map.empty\<rparr> =
     ((Json_dumps [(''success'', JBool False),
                   (''error'', JString ''Only POST method is allowed'')],
       405, json_headers), [])"
  using non_post_is_rejected [of "\<lparr>http_method = ''GET'', files = Map.empty\<rparr>"
      "quiet_world (\<lambda>p i. Inr ''yes'')"]
  by simp

section \<open>Binary64 rounding\<close>

lemma ilog2_bounds:
  assumes "0 < x"
  shows "2 powi (ilog2 x) \<le> x \<and> x < 2 powi (ilog2 x + 1)"
proof (cases "1 \<le> x")
  case True
  define n where "n = nat \<lfloor>x\<rfloor>"
  have n1: "0 < n" using True by (simp add: n_def)
  have nfl: "(of_nat n :: rat) = of_int \<lfloor>x\<rfloor>" using True by (simp add: n_def)
  have nx: "of_nat n \<le> x" "x < of_nat n + 1"
    unfolding nfl by linarith+
  from floorlog_bounds [of n 2] n1
  have fb: "2 ^ (floorlog 2 n - 1) \<le> n" "n < 2 ^ floorlog 2 n" by simp_all
  have fpos: "0 < floorlog 2 n" using n1 by (simp add: floorlog_def)
  have e: "ilog2 x = int (floorlog 2 n - 1)"
    using True fpos by (simp add: ilog2_def n_def)
  have "(2::rat) powi (ilog2 x) = of_nat (2 ^ (floorlog 2 n - 1))"
    by (simp add: e)
  also have "\<dots> \<le> of_nat n" using fb(1) by (rule of_nat_mono)
  finally have lo: "2 powi (ilog2 x) \<le> x" using nx(1) by simp
  have "ilog2 x + 1 = int (floorlog 2 n)" using e fpos by simp
  then have "(2::rat) powi (ilog2 x + 1) = of_nat (2 ^ floorlog 2 n)" by simp
  moreover have "of_nat n + 1 \<le> (of_nat (2 ^ floorlog 2 n) :: rat)"
  proof -
    have "n + 1 \<le> 2 ^ floorlog 2 n" using fb(2) by simp
    then have "(of_nat (n + 1) :: rat) \<le> of_nat (2 ^ floorlog 2 n)" by (rule of_nat_mono)
    then show ?thesis by simp
  qed
  ultimately have "x < 2 powi (ilog2 x + 1)" using nx(2) by simp
  with lo show ?thesis by simp
next
  case False
  define y where "y = 1 / x"
  have y1: "1 < y" using False assms by (simp add: y_def)
  define m where "m = nat (\<lceil>y\<rceil> - 1)"
  have c2: "2 \<le> \<lceil>y\<rceil>" using y1 by (simp add: le_ceiling_iff)
  have m1: "0 < m" using c2 by (simp add: m_def)
  have my: "of_nat m < y" "y \<le> of_nat m + 1"
  proof -
    have "of_int (\<lceil>y\<rceil> - 1) < y" by linarith
    moreover have "(of_nat m :: rat) = of_int (\<lceil>y\<rceil> - 1)" using c2 by (simp add: m_def)
    ultimately show "of_nat m < y" by simp
    have "y \<le> of_int \<lceil>y\<rceil>" by simp
    also have "\<dots> = of_nat m + 1" using c2 by (simp add: m_def)
    finally show "y \<le> of_nat m + 1" .
  qed
  from floorlog_bounds [of m 2] m1
  have fb: "2 ^ (floorlog 2 m - 1) \<le> m" "m < 2 ^ floorlog 2 m" by simp_all
  have fpos: "0 < floorlog 2 m" using m1 by (simp add: floorlog_def)
  define j where "j = floorlog 2 m"
  have e: "ilog2 x = - int j"
    using False by (simp add: ilog2_def m_def y_def j_def)
  have yhi: "y \<le> 2 ^ j"
  proof -
    have "m + 1 \<le> 2 ^ j" using fb(2) by (simp add: j_def)
    then have "(of_nat (m + 1) :: rat) \<le> of_nat (2 ^ j)" by (rule of_nat_mono)
    then have "of_nat m + 1 \<le> (2::rat) ^ j" by simp
    then show ?thesis using my(2) by linarith
  qed
  have ylo: "2 ^ (j - 1) < y"
  proof -
    have "2 ^ (j - 1) \<le> m" using fb(1) by (simp add: j_def)
    then have "(of_nat (2 ^ (j - 1)) :: rat) \<le> of_nat m" by (rule of_nat_mono)
    then have "(2::rat) ^ (j - 1) \<le> of_nat m" by simp
    then show ?thesis using my(1) by linarith
  qed
  have xy: "x = 1 / y" using assms by (simp add: y_def)
  have lo: "2 powi (ilog2 x) \<le> x"
  proof -
    have "(2::rat) powi (- int j) = 1 / 2 ^ j" by (simp add: power_int_minus_divide)
    also have "\<dots> \<le> 1 / y" using yhi y1 by (simp add: frac_le)
    finally show ?thesis using e xy by simp
  qed
  have hi: "x < 2 powi (ilog2 x + 1)"
  proof -
    have "ilog2 x + 1 = - int (j - 1)" using e fpos by (simp add: j_def)
    then have "(2::rat) powi (ilog2 x + 1) = 1 / 2 ^ (j - 1)"
      by (simp add: power_int_minus_divide)
    moreover have "1 / y < 1 / (2::rat) ^ (j - 1)"
      using ylo by (simp add: frac_less2)
    ultimately show ?thesis using xy by simp
  qed
  from lo hi show ?thesis by simp
qed

lemma ilog2_unique:
  assumes "0 < x" and "2 powi e \<le> x" and "x < 2 powi (e + 1)"
  shows "ilog2 x = e"
proof -
  from ilog2_bounds [OF assms(1)]
  have b: "2 powi (ilog2 x) \<le> x" "x < 2 powi (ilog2 x + 1)" by simp_all
  have "(2::rat) powi e < 2 powi (ilog2 x + 1)" using assms(2) b(2) by simp
  then have "e < ilog2 x + 1"
    by (metis power_int_increasing one_le_numeral not_less)
  moreover have "(2::rat) powi (ilog2 x) < 2 powi (e + 1)" using assms(3) b(1) by simp
  then have "ilog2 x < e + 1"
    by (metis power_int_increasing one_le_numeral not_less)
  ultimately show ?thesis by simp
qed

lemma round_half_even_error: "\<bar>of_int (round_half_even r) - r\<bar> \<le> 1 / 2"
proof -
  have "of_int \<lfloor>r\<rfloor> \<le> r" "r < of_int \<lfloor>r\<rfloor> + 1" by linarith+
  then show ?thesis
    by (auto simp add: round_half_even_def Let_def abs_le_iff)
qed

lemma round_half_even_of_int [simp]: "round_half_even (of_int k) = k"
  by (simp add: round_half_even_def)

lemma ulp_pos [simp]: "0 < ulp x"
  by (simp add: ulp_def)

lemma ulp_nonzero [simp]: "ulp x \<noteq> 0"
  by (simp add: ulp_def)

lemma abs_ulp [simp]: "\<bar>ulp x\<bar> = ulp x"
  by (rule abs_of_pos) (rule ulp_pos)

lemma ulp_abs [simp]: "ulp \<bar>x\<bar> = ulp x"
  by (simp add: ulp_def)

lemma fl_error:
  assumes "x \<noteq> 0"
  shows "\<bar>fl x - x\<bar> \<le> ulp x / 2"
proof -
  define r where "r = \<bar>x\<bar> / ulp x"
  have x: "x = sgn x * (r * ulp x)"
    by (simp add: r_def mult_sgn_abs)
  have "fl x - x = sgn x * ((of_int (round_half_even r) - r) * ulp x)"
    using assms by (subst (2) x) (simp add: fl_def r_def algebra_simps)
  then have "\<bar>fl x - x\<bar> = \<bar>of_int (round_half_even r) - r\<bar> * ulp x"
    using assms by (simp add: abs_mult abs_sgn_eq)
  also have "\<dots> \<le> (1 / 2) * ulp x"
    by (intro mult_right_mono round_half_even_error less_imp_le ulp_pos)
  finally show ?thesis by simp
qed

lemma ilog2_normal:
  assumes "2 powi (- 1022) \<le> x"
  shows "- 1022 \<le> ilog2 x"
proof -
  have pos: "0 < x"
    using assms by (rule less_le_trans [rotated]) simp
  from ilog2_bounds [OF pos] assms have "(2::rat) powi (- 1022) < 2 powi (ilog2 x + 1)"
    by simp
  then have "- 1022 < ilog2 x + 1"
    by (metis power_int_increasing one_le_numeral not_less)
  then show ?thesis by simp
qed

lemma ulp_normal:
  assumes "2 powi (- 1022) \<le> \<bar>x\<bar>"
  shows "ulp x \<le> \<bar>x\<bar> / 2 ^ 52"
proof -
  have pos: "0 < \<bar>x\<bar>"
    using assms by (rule less_le_trans [rotated]) simp
  have "ulp x = 2 powi (ilog2 \<bar>x\<bar> - 52)"
    using ilog2_normal [OF assms] by (simp add: ulp_def max_def)
  also have "\<dots> = 2 powi (ilog2 \<bar>x\<bar>) / 2 ^ 52"
    by (simp add: power_int_diff)
  also have "\<dots> \<le> \<bar>x\<bar> / 2 ^ 52"
    using ilog2_bounds [OF pos] by (simp add: divide_right_mono)
  finally show ?thesis .
qed

lemma fl_relative_error:
  assumes "2 powi (- 1022) \<le> \<bar>x\<bar>"
  shows "\<bar>fl x - x\<bar> \<le> \<bar>x\<bar> / 2 ^ 53"
proof -
  have "x \<noteq> 0" using assms by auto
  then have "\<bar>fl x - x\<bar> \<le> ulp x / 2" by (rule fl_error)
  also have "\<dots> \<le> (\<bar>x\<bar> / 2 ^ 52) / 2"
    using ulp_normal [OF assms] by simp
  finally show ?thesis by simp
qed

lemma fl_exact:
  assumes "x \<noteq> 0" and "\<bar>x\<bar> / ulp x = of_int k"
  shows "fl x = x"
proof -
  have "fl x = sgn x * (\<bar>x\<bar> / ulp x * ulp x)"
    using assms by (simp add: fl_def)
  then show ?thesis by (simp add: mult_sgn_abs)
qed

lemma fl_of_int:
  assumes "\<bar>n\<bar> < 2 ^ 53"
  shows "fl (of_int n) = of_int n"
proof (cases "n = 0")
  case True
  then show ?thesis by (simp add: fl_def)
next
  case False
  define x :: rat where "x = \<bar>of_int n\<bar>"
  have x1: "1 \<le> x" using False by (simp add: x_def flip: of_int_abs)
  then have pos: "0 < x" by simp
  define e where "e = ilog2 x"
  from ilog2_bounds [OF pos] have b: "2 powi e \<le> x" "x < 2 powi (e + 1)"
    by (simp_all add: e_def)
  have "(2::rat) powi 0 < 2 powi (e + 1)" using x1 b(2) by simp
  then have "0 < e + 1" by (metis power_int_increasing one_le_numeral not_less)
  then have e0: "0 \<le> e" by simp
  have "x < 2 ^ 53"
  proof -
    have "(of_int \<bar>n\<bar> :: rat) < of_int (2 ^ 53)" using assms by (simp only: of_int_less_iff)
    then show ?thesis by (simp add: x_def)
  qed
  then have "(2::rat) powi e < 2 powi 53" using b(1) by simp
  then have e52: "e \<le> 52" using power_int_increasing [of 53 e "2::rat"] by force
  have u: "ulp (of_int n) = 1 / 2 ^ nat (52 - e)"
  proof -
    have "ulp (of_int n) = 2 powi (e - 52)"
      using e0 by (simp add: ulp_def e_def x_def max_def)
    also have "e - 52 = - int (nat (52 - e))" using e52 by simp
    finally show ?thesis by (simp only: power_int_minus_divide power_int_of_nat)
  qed
  have "\<bar>of_int n :: rat\<bar> / ulp (of_int n) = of_int (\<bar>n\<bar> * 2 ^ nat (52 - e))"
    by (simp add: u)
  with False show ?thesis by (intro fl_exact [where k = "\<bar>n\<bar> * 2 ^ nat (52 - e)"]) simp_all
qed

lemma fl_bounded:
  assumes "\<bar>x\<bar> \<le> 2 ^ 24"
  shows "\<bar>fl x\<bar> \<le> 2 ^ 30"
proof (cases "x = 0")
  case True
  then show ?thesis by (simp add: fl_def)
next
  case False
  then have pos: "0 < \<bar>x\<bar>" by simp
  from ilog2_bounds [OF pos] assms have "(2::rat) powi (ilog2 \<bar>x\<bar>) \<le> 2 ^ 24" by simp
  also have "(2::rat) ^ 24 < 2 powi 25" by simp
  finally have "ilog2 \<bar>x\<bar> < 25"
    by (metis power_int_increasing one_le_numeral not_less)
  then have "max (ilog2 \<bar>x\<bar>) (- 1022) - 52 \<le> 0" by simp
  then have "(2::rat) powi (max (ilog2 \<bar>x\<bar>) (- 1022) - 52) \<le> 2 powi 0"
    by (rule power_int_increasing) simp
  then have u: "ulp x \<le> 1" by (simp add: ulp_def)
  from fl_error [OF False] u have "\<bar>fl x - x\<bar> \<le> 1" by simp
  with assms have "\<bar>fl x\<bar> \<le> 2 ^ 24 + 1" by linarith
  also have "\<dots> \<le> (2::rat) ^ 30" by simp
  finally show ?thesis .
qed

section \<open>Division, multiplication and truncation\<close>

lemma not_is_inf_small:
  assumes "\<bar>x\<bar> \<le> 2 ^ 30"
  shows "\<not> is_inf x"
proof -
  have "(2::rat) ^ 30 < 2 ^ 1024" by (rule power_strict_increasing) simp_all
  with assms have "\<bar>x\<bar> < 2 ^ 1024" by (rule le_less_trans)
  then show ?thesis by (simp only: is_inf_def not_le)
qed

lemma tiny_le: "(2::rat) powi (- 1022) \<le> 1 / 2 ^ 25"
proof -
  have "(2::rat) powi (- 1022) \<le> 2 powi (- 25)" by (rule power_int_increasing) simp_all
  also have "\<dots> = 1 / 2 ^ 25" by (simp add: power_int_minus_divide)
  finally show ?thesis .
qed

lemma truediv_pos:
  assumes "0 < a" "a \<le> 2 ^ 24" "0 < b" "b \<le> 2 ^ 24"
  shows "\<exists>q. truediv a b = Inr q
           \<and> \<bar>q - of_int a / of_int b\<bar> \<le> (of_int a / of_int b) / 2 ^ 53"
proof -
  define x :: rat where "x = of_int a / of_int b"
  have a1: "(1::rat) \<le> of_int a" and a2: "(of_int a :: rat) \<le> 2 ^ 24"
    using assms(1,2) by simp_all
  have b1: "(1::rat) \<le> of_int b" and b2: "(of_int b :: rat) \<le> 2 ^ 24"
    using assms(3,4) by simp_all
  have xlo: "1 / 2 ^ 24 \<le> x"
    unfolding x_def using a1 b1 b2 by (intro frac_le) simp_all
  have xhi: "x \<le> 2 ^ 24"
  proof -
    have "x \<le> of_int a / 1" unfolding x_def using a1 b1 by (intro divide_left_mono) simp_all
    then show ?thesis using a2 by simp
  qed
  have xpos: "0 < x" using xlo by (rule less_le_trans [rotated]) simp
  have norm: "2 powi (- 1022) \<le> \<bar>x\<bar>"
  proof -
    have "(1::rat) / 2 ^ 25 \<le> 1 / 2 ^ 24" by simp
    with tiny_le xlo have "2 powi (- 1022) \<le> x" by (meson order_trans)
    then show ?thesis using xpos by (simp only: abs_of_pos)
  qed
  have err: "\<bar>fl x - x\<bar> \<le> x / 2 ^ 53"
    using fl_relative_error [OF norm] xpos by simp
  have "x / 2 ^ 53 \<le> x" using xpos by (simp add: field_simps)
  with err have "\<bar>fl x\<bar> \<le> 2 * x" using xpos by linarith
  with xhi have "\<bar>fl x\<bar> \<le> 2 ^ 30" by simp
  then have "\<not> is_inf (fl x)" by (rule not_is_inf_small)
  then have "truediv a b = Inr (fl x)"
    using assms(3) by (simp add: truediv_def x_def)
  with err show ?thesis unfolding x_def by blast
qed

lemma min_error:
  fixes a b wa hb :: rat
  assumes "0 < a" "0 < b"
    and "\<bar>wa - a\<bar> \<le> a / 2 ^ 53" and "\<bar>hb - b\<bar> \<le> b / 2 ^ 53"
  shows "\<bar>min wa hb - min a b\<bar> \<le> min a b / 2 ^ 53"
proof -
  define ea where "ea = a / 2 ^ 53"
  define eb where "eb = b / 2 ^ 53"
  from assms(3) have w: "wa \<le> a + ea" "a - ea \<le> wa" unfolding ea_def by linarith+
  from assms(4) have h: "hb \<le> b + eb" "b - eb \<le> hb" unfolding eb_def by linarith+
  have mono: "a \<le> b \<Longrightarrow> a - ea \<le> b - eb" "b \<le> a \<Longrightarrow> b - eb \<le> a - ea"
    by (simp_all add: ea_def eb_def field_simps)
  show ?thesis
  proof (cases "a \<le> b")
    case True
    then have m: "min a b = a" by simp
    from mono(1) [OF True] have lo: "a - ea \<le> hb" using h(2) by linarith
    have "\<bar>min wa hb - a\<bar> \<le> ea"
    proof (cases "wa \<le> hb")
      case True
      then have "min wa hb = wa" by simp
      with w show ?thesis by linarith
    next
      case False
      then have "min wa hb = hb" by simp
      moreover from False w(1) have "hb \<le> a + ea" by linarith
      ultimately show ?thesis using lo by linarith
    qed
    with m show ?thesis by (simp add: ea_def)
  next
    case False
    then have ba: "b \<le> a" by simp
    then have m: "min a b = b" using False by simp
    from mono(2) [OF ba] have lo: "b - eb \<le> wa" using w(2) by linarith
    have "\<bar>min wa hb - b\<bar> \<le> eb"
    proof (cases "wa \<le> hb")
      case True
      then have "min wa hb = wa" by simp
      moreover from True h(1) have "wa \<le> b + eb" by linarith
      ultimately show ?thesis using lo by linarith
    next
      case False
      then have "min wa hb = hb" by simp
      with h show ?thesis by linarith
    qed
    with m show ?thesis by (simp add: eb_def)
  qed
qed

lemma int_mul_float_pos:
  fixes s sf :: rat
  assumes "0 < n" "n \<le> 2 ^ 24"
    and "1 / 2 ^ 24 \<le> s" and "of_int n * s \<le> 2 ^ 24"
    and "\<bar>sf - s\<bar> \<le> s / 2 ^ 53"
  shows "\<exists>p. int_mul_float n sf = Inr p \<and> \<not> is_inf p
           \<and> \<bar>p - of_int n * s\<bar> \<le> 3 * (of_int n * s) / 2 ^ 53"
proof -
  define N :: rat where "N = of_int n"
  have n1: "1 \<le> N" and n2: "N \<le> 2 ^ 24"
    using assms(1,2) by (simp_all add: N_def)
  have spos: "0 < s" using assms(3) by (rule less_le_trans [rotated]) simp
  have fi: "float_of_int n = Inr N"
  proof -
    have "\<bar>n\<bar> < 2 ^ 53" using assms(1,2) by simp
    then have "fl (of_int n) = of_int n" by (rule fl_of_int)
    moreover have "\<not> is_inf N" using n1 n2 by (intro not_is_inf_small) simp
    ultimately show ?thesis by (simp add: float_of_int_def N_def)
  qed
  define y where "y = N * sf"
  have e53: "s / 2 ^ 53 \<le> s / 2"
    using spos by (intro divide_left_mono) simp_all
  have sflo: "s / 2 \<le> sf" and sfhi: "sf \<le> s + s / 2 ^ 53"
    using assms(5) e53 by linarith+
  have sfpos: "0 < sf" using sflo spos by simp
  have ypos: "0 < y" using n1 sfpos by (simp add: y_def)
  have "1 / 2 ^ 25 \<le> sf" using sflo assms(3) by simp
  also have "sf \<le> y" using n1 sfpos by (simp add: y_def)
  finally have ylo: "1 / 2 ^ 25 \<le> y" .
  have norm: "2 powi (- 1022) \<le> \<bar>y\<bar>"
  proof -
    from tiny_le ylo have "2 powi (- 1022) \<le> y" by (rule order_trans)
    then show ?thesis using ypos by (simp only: abs_of_pos)
  qed
  have err: "\<bar>fl y - y\<bar> \<le> y / 2 ^ 53"
    using fl_relative_error [OF norm] ypos by simp
  define x where "x = N * s"
  have xpos: "0 < x" using n1 spos by (simp add: x_def)
  have xhi: "x \<le> 2 ^ 24" using assms(4) by (simp add: x_def N_def)
  have yx: "\<bar>y - x\<bar> \<le> x / 2 ^ 53"
  proof -
    have "\<bar>y - x\<bar> = N * \<bar>sf - s\<bar>"
      using n1 by (simp add: y_def x_def abs_mult flip: right_diff_distrib)
    also have "\<dots> \<le> N * (s / 2 ^ 53)"
      using assms(5) n1 by (intro mult_left_mono) simp_all
    finally show ?thesis by (simp add: x_def)
  qed
  have x53: "x / 2 ^ 53 \<le> x" using xpos by (simp add: field_simps)
  have yhi: "y \<le> 2 * x" using yx x53 by linarith
  have "\<bar>fl y - x\<bar> \<le> \<bar>fl y - y\<bar> + \<bar>y - x\<bar>" by simp
  also have "\<dots> \<le> y / 2 ^ 53 + x / 2 ^ 53" using err yx by simp
  also have "\<dots> \<le> (2 * x) / 2 ^ 53 + x / 2 ^ 53"
    using yhi by (simp add: divide_right_mono)
  finally have tot: "\<bar>fl y - x\<bar> \<le> 3 * x / 2 ^ 53" by simp
  have "3 * x / 2 ^ 53 \<le> x" using xpos by (simp add: field_simps)
  with tot have "\<bar>fl y\<bar> \<le> 2 * x" using xpos by linarith
  with xhi have "\<not> is_inf (fl y)" by (intro not_is_inf_small) simp
  moreover have "int_mul_float n sf = Inr (fl y)"
    by (simp add: int_mul_float_def fi y_def)
  ultimately show ?thesis using tot unfolding x_def N_def by blast
qed

lemma floor_near_fraction:
  fixes p :: rat and k d :: int
  assumes "0 < d" and "\<bar>p - of_int k / of_int d\<bar> < 1 / of_int d"
  shows "\<lfloor>p\<rfloor> = k div d \<or> (d dvd k \<and> \<lfloor>p\<rfloor> = k div d - 1)"
proof -
  define n where "n = k div d"
  define r where "r = k mod d"
  define D :: rat where "D = of_int d"
  have Dpos: "0 < D" using assms(1) by (simp add: D_def)
  have r: "0 \<le> r" "r < d" using assms(1) by (simp_all add: r_def)
  have k: "k = n * d + r" by (simp add: n_def r_def)
  have x: "of_int k / D = of_int n + of_int r / D"
    using Dpos by (simp add: k D_def field_simps)
  from assms(2) have p: "of_int n + of_int r / D - 1 / D < p" "p < of_int n + of_int r / D + 1 / D"
    unfolding D_def [symmetric] x by linarith+
  have D1: "1 / D \<le> 1"
  proof -
    have "1 \<le> D" using assms(1) by (simp add: D_def)
    then show ?thesis by simp
  qed
  show ?thesis
  proof (cases "r = 0")
    case True
    then have dv: "d dvd k" by (simp add: r_def dvd_eq_mod_eq_0)
    from True p D1 have "of_int n - 1 < p" "p < of_int n + 1" by simp_all
    then have "of_int (n - 1) \<le> p \<and> p < of_int (n - 1) + 1 \<or> of_int n \<le> p \<and> p < of_int n + 1"
      by (simp; linarith)
    then have "\<lfloor>p\<rfloor> = n - 1 \<or> \<lfloor>p\<rfloor> = n" by (auto simp add: floor_eq_iff)
    with dv show ?thesis by (auto simp add: n_def)
  next
    case False
    with r have r1: "1 \<le> r" "r \<le> d - 1" by simp_all
    have lo: "1 / D \<le> of_int r / D"
      using r1(1) Dpos by (simp add: divide_right_mono)
    have hi: "of_int r / D \<le> 1 - 1 / D"
    proof -
      have "(of_int r :: rat) \<le> of_int (d - 1)" using r1(2) by (simp only: of_int_le_iff)
      then have "of_int r / D \<le> (D - 1) / D"
        using Dpos by (simp add: divide_right_mono D_def)
      also have "\<dots> = 1 - 1 / D" using Dpos by (simp add: field_simps)
      finally show ?thesis .
    qed
    from p lo hi have "of_int n \<le> p" "p < of_int n + 1" by linarith+
    then have "\<lfloor>p\<rfloor> = n" by (simp add: floor_eq_iff)
    then show ?thesis by (simp add: n_def)
  qed
qed

lemma int_of_float_nonneg: "0 \<le> p \<Longrightarrow> \<not> is_inf p \<Longrightarrow> int_of_float p = Inr \<lfloor>p\<rfloor>"
  by (simp add: int_of_float_def)

lemma scaled_dimension:
  fixes s sf :: rat
  assumes "0 < n" "n \<le> 2 ^ 24" "0 < d" "d \<le> 2 ^ 24" "0 < k"
    and "1 / 2 ^ 24 \<le> s" and "of_int n * s \<le> 2 ^ 24"
    and "of_int n * s = of_int k / of_int d"
    and "\<bar>sf - s\<bar> \<le> s / 2 ^ 53"
  shows "\<exists>p m. int_mul_float n sf = Inr p \<and> int_of_float p = Inr m
           \<and> (m = k div d \<or> (d dvd k \<and> m = k div d - 1))"
proof -
  define x :: rat where "x = of_int n * s"
  from int_mul_float_pos [OF assms(1,2,6,7,9)] obtain p where
    p: "int_mul_float n sf = Inr p" "\<not> is_inf p" "\<bar>p - x\<bar> \<le> 3 * x / 2 ^ 53"
    unfolding x_def by blast
  have xhi: "x \<le> 2 ^ 24" using assms(7) by (simp add: x_def)
  have xpos: "0 < x"
  proof -
    have "0 < s" using assms(6) by (rule less_le_trans [rotated]) simp
    then show ?thesis using assms(1) by (simp add: x_def)
  qed
  have small: "3 * x / 2 ^ 53 < 1 / 2 ^ 24"
  proof -
    have "3 * x / 2 ^ 53 \<le> 3 * 2 ^ 24 / (2 ^ 53 :: rat)"
      using xhi by (simp add: divide_right_mono)
    also have "\<dots> < 1 / 2 ^ 24" by simp
    finally show ?thesis .
  qed
  have "(1::rat) / 2 ^ 24 \<le> 1 / of_int d"
    using assms(3,4) by (intro divide_left_mono) simp_all
  with small p(3) have near: "\<bar>p - x\<bar> < 1 / of_int d" by linarith
  have "3 * x / 2 ^ 53 \<le> x" using xpos by (simp add: field_simps)
  with p(3) have "0 \<le> p" by linarith
  with p(2) have "int_of_float p = Inr \<lfloor>p\<rfloor>" by (simp add: int_of_float_nonneg)
  moreover from floor_near_fraction [OF assms(3), of p k] near
  have "\<lfloor>p\<rfloor> = k div d \<or> (d dvd k \<and> \<lfloor>p\<rfloor> = k div d - 1)"
    by (simp add: x_def assms(8))
  ultimately show ?thesis using p(1) by blast
qed

lemma truediv_by_zero [simp]: "truediv a 0 = Inl ZeroDivisionError"
  by (simp add: truediv_def)

lemma truediv_small:
  assumes "b \<noteq> 0" and "\<bar>a\<bar> \<le> 2 ^ 24"
  shows "\<exists>q. truediv a b = Inr q"
proof -
  define x :: rat where "x = of_int a / of_int b"
  have "\<bar>x\<bar> = of_int \<bar>a\<bar> / of_int \<bar>b\<bar>" by (simp add: x_def)
  also have "\<dots> \<le> of_int \<bar>a\<bar> / 1"
    using assms(1) by (intro divide_left_mono) simp_all
  also have "\<dots> \<le> 2 ^ 24" using assms(2) by simp
  finally have "\<bar>fl x\<bar> \<le> 2 ^ 30" by (rule fl_bounded)
  then have "\<not> is_inf (fl x)" by (rule not_is_inf_small)
  then show ?thesis using assms(1) by (simp add: truediv_def x_def)
qed

section \<open>The dimensions the resizer computes\<close>

lemma new_dimensions_pos:
  assumes "0 < ow" "ow \<le> 2 ^ 24" "0 < oh" "oh \<le> 2 ^ 24"
    and "0 < tw" "tw \<le> 2 ^ 24" "0 < th" "th \<le> 2 ^ 24"
  defines "k \<equiv> min (tw * oh) (ow * th)"
  shows "\<exists>nw nh. new_dimensions (ow, oh) tw th = Inr (nw, nh)
           \<and> (nw = k div oh \<or> (oh dvd k \<and> nw = k div oh - 1))
           \<and> (nh = k div ow \<or> (ow dvd k \<and> nh = k div ow - 1))"
proof -
  define OW OH TW TH :: rat
    where "OW = of_int ow" and "OH = of_int oh" and "TW = of_int tw" and "TH = of_int th"
  have pos: "0 < OW" "0 < OH" "0 < TW" "0 < TH"
    using assms(1,3,5,7) by (simp_all add: OW_def OH_def TW_def TH_def)
  have ge1: "1 \<le> OW" "1 \<le> OH" "1 \<le> TW" "1 \<le> TH"
    using assms(1,3,5,7) by (simp_all add: OW_def OH_def TW_def TH_def)
  have le: "OW \<le> 2 ^ 24" "OH \<le> 2 ^ 24" "TW \<le> 2 ^ 24" "TH \<le> 2 ^ 24"
    using assms(2,4,6,8) by (simp_all add: OW_def OH_def TW_def TH_def)
  define a b where "a = TW / OW" and "b = TH / OH"
  have apos: "0 < a" and bpos: "0 < b" using pos by (simp_all add: a_def b_def)
  from truediv_pos [OF assms(5,6,1,2)] obtain wr where
    wr: "truediv tw ow = Inr wr" "\<bar>wr - a\<bar> \<le> a / 2 ^ 53"
    unfolding a_def TW_def OW_def by blast
  from truediv_pos [OF assms(7,8,3,4)] obtain hr where
    hr: "truediv th oh = Inr hr" "\<bar>hr - b\<bar> \<le> b / 2 ^ 53"
    unfolding b_def TH_def OH_def by blast
  define s sf where "s = min a b" and "sf = min wr hr"
  have err: "\<bar>sf - s\<bar> \<le> s / 2 ^ 53"
    unfolding s_def sf_def using apos bpos wr(2) hr(2) by (rule min_error)
  have alo: "1 / 2 ^ 24 \<le> a"
    unfolding a_def using ge1(3) le(1) pos(1) by (intro frac_le) simp_all
  have blo: "1 / 2 ^ 24 \<le> b"
    unfolding b_def using ge1(4) le(2) pos(2) by (intro frac_le) simp_all
  have slo: "1 / 2 ^ 24 \<le> s" using alo blo by (simp add: s_def)
  define K :: rat where "K = of_int k"
  have K: "K = min (TW * OH) (OW * TH)"
    by (simp add: K_def k_def TW_def OH_def OW_def TH_def of_int_min)
  have sK: "s = K / (OW * OH)"
  proof -
    have a': "a = (TW * OH) / (OW * OH)" and b': "b = (OW * TH) / (OW * OH)"
      using pos by (simp_all add: a_def b_def)
    have ab: "a \<le> b \<longleftrightarrow> TW * OH \<le> OW * TH"
      using pos by (simp add: a_def b_def field_simps)
    show ?thesis
    proof (cases "a \<le> b")
      case True
      then have "s = a" "K = TW * OH" using ab by (simp_all add: s_def K)
      then show ?thesis using a' by simp
    next
      case False
      then have "s = b" "K = OW * TH" using ab by (simp_all add: s_def K)
      then show ?thesis using b' by simp
    qed
  qed
  have xw: "OW * s = K / OH" using pos by (simp add: sK)
  have xh: "OH * s = K / OW" using pos by (simp add: sK)
  have Kw: "K \<le> TW * OH" and Kh: "K \<le> OW * TH" by (simp_all add: K)
  have xw_le: "OW * s \<le> 2 ^ 24"
  proof -
    have "K / OH \<le> TW" using Kw pos by (simp add: field_simps)
    then show ?thesis using le(3) xw by simp
  qed
  have xh_le: "OH * s \<le> 2 ^ 24"
  proof -
    have "K / OW \<le> TH" using Kh pos by (simp add: field_simps)
    then show ?thesis using le(4) xh by simp
  qed
  have kpos: "0 < k" using assms(1,3,5,7) by (simp add: k_def)
  from scaled_dimension [OF assms(1,2,3,4) kpos slo, of sf]
    xw_le xw err
  obtain p nw where w: "int_mul_float ow sf = Inr p" "int_of_float p = Inr nw"
    "nw = k div oh \<or> (oh dvd k \<and> nw = k div oh - 1)"
    unfolding OW_def OH_def K_def by blast
  from scaled_dimension [OF assms(3,4,1,2) kpos slo, of sf]
    xh_le xh err
  obtain q nh where h: "int_mul_float oh sf = Inr q" "int_of_float q = Inr nh"
    "nh = k div ow \<or> (ow dvd k \<and> nh = k div ow - 1)"
    unfolding OW_def OH_def K_def by blast
  have "new_dimensions (ow, oh) tw th = Inr (nw, nh)"
    using wr(1) hr(1) w(1,2) h(1,2) by (simp add: new_dimensions_def sf_def)
  with w(3) h(3) show ?thesis by blast
qed

lemma new_dimensions_zero:
  assumes "ow = 0 \<or> oh = 0" and "\<bar>tw\<bar> \<le> 2 ^ 24"
  shows "new_dimensions (ow, oh) tw th = Inl ZeroDivisionError"
proof (cases "ow = 0")
  case True
  then show ?thesis by (simp add: new_dimensions_def)
next
  case False
  with assms(1) have oh: "oh = 0" by simp
  from truediv_small [OF False assms(2)] obtain q where "truediv tw ow = Inr q" by blast
  then show ?thesis by (simp add: new_dimensions_def oh)
qed

lemma div_facts:
  fixes k d :: int
  assumes "0 < d" and "0 < k" and "m = k div d \<or> (d dvd k \<and> m = k div d - 1)"
  shows "0 \<le> m" and "k - d \<le> m * d" and "m * d \<le> k" and "m \<le> k div d"
proof -
  have md: "k div d * d = k - k mod d" by (simp add: algebra_simps minus_mod_eq_div_mult)
  have r: "0 \<le> k mod d" "k mod d < d" using assms(1) by simp_all
  have d0: "0 \<le> k div d" using assms(1,2) by (simp add: pos_imp_zdiv_nonneg_iff)
  from assms(3) show "m \<le> k div d" by auto
  from assms(3) show "0 \<le> m"
  proof
    assume "m = k div d" with d0 show ?thesis by simp
  next
    assume a: "d dvd k \<and> m = k div d - 1"
    then have "k = k div d * d" by simp
    with assms(1,2) have "0 < k div d"
      by (metis d0 le_less mult_zero_left less_irrefl)
    with a show ?thesis by simp
  qed
  from assms(3) show "k - d \<le> m * d"
  proof
    assume "m = k div d" with md r show ?thesis by simp
  next
    assume a: "d dvd k \<and> m = k div d - 1"
    then have m: "m = k div d - 1" and dv: "d dvd k" by simp_all
    have "m * d = (k div d - 1) * d" by (simp only: m)
    also have "\<dots> = k div d * d - d" by (simp add: left_diff_distrib)
    also have "\<dots> = k - d" using dv by simp
    finally show ?thesis by simp
  qed
  from assms(3) show "m * d \<le> k"
  proof
    assume "m = k div d" with md r show ?thesis by simp
  next
    assume a: "d dvd k \<and> m = k div d - 1"
    then have m: "m = k div d - 1" and dv: "d dvd k" by simp_all
    have "m * d = (k div d - 1) * d" by (simp only: m)
    also have "\<dots> = k div d * d - d" by (simp add: left_diff_distrib)
    also have "\<dots> = k - d" using dv by simp
    finally show ?thesis using assms(1) by simp
  qed
qed

lemma floors_of_common_scale_iff:
  assumes "0 < sw" "0 < sh"
  shows "floors_of_common_scale (sw, sh) (w, h)
         \<longleftrightarrow> (\<exists>s :: rat. w = \<lfloor>of_int sw * s\<rfloor> \<and> h = \<lfloor>of_int sh * s\<rfloor>)"
proof
  define SW SH W H :: rat
    where "SW = of_int sw" and "SH = of_int sh" and "W = of_int w" and "H = of_int h"
  have pos: "0 < SW" "0 < SH" using assms by (simp_all add: SW_def SH_def)
  {
    assume "floors_of_common_scale (sw, sh) (w, h)"
    then have i: "w * sh < (h + 1) * sw" "h * sw < (w + 1) * sh"
      by (simp_all add: floors_of_common_scale_def)
    have c1: "W * SH < (H + 1) * SW"
    proof -
      have "(of_int (w * sh) :: rat) < of_int ((h + 1) * sw)" using i(1) by (simp only: of_int_less_iff)
      then show ?thesis by (simp add: W_def SH_def H_def SW_def)
    qed
    have c2: "H * SW < (W + 1) * SH"
    proof -
      have "(of_int (h * sw) :: rat) < of_int ((w + 1) * sh)" using i(2) by (simp only: of_int_less_iff)
      then show ?thesis by (simp add: W_def SH_def H_def SW_def)
    qed
    define s where "s = max (W / SW) (H / SH)"
    have lo: "W \<le> SW * s" "H \<le> SH * s"
      using pos by (simp_all add: s_def field_simps max_def)
    have hi: "SW * s < W + 1" "SH * s < H + 1"
    proof -
      have "W / SW < (W + 1) / SW" "H / SH < (H + 1) / SH"
        using pos by (simp_all add: divide_strict_right_mono)
      moreover have "H / SH < (W + 1) / SW" "W / SW < (H + 1) / SH"
        using c1 c2 pos by (simp_all add: field_simps)
      ultimately have "s < (W + 1) / SW" "s < (H + 1) / SH" by (simp_all add: s_def)
      then show "SW * s < W + 1" "SH * s < H + 1"
        using pos by (simp_all add: field_simps)
    qed
    have "w = \<lfloor>SW * s\<rfloor>" "h = \<lfloor>SH * s\<rfloor>"
      using lo hi by (simp_all add: floor_eq_iff W_def H_def eq_commute [of _ "\<lfloor>_\<rfloor>"])
    then show "\<exists>s :: rat. w = \<lfloor>of_int sw * s\<rfloor> \<and> h = \<lfloor>of_int sh * s\<rfloor>"
      unfolding SW_def SH_def by blast
  }
  {
    assume "\<exists>s :: rat. w = \<lfloor>of_int sw * s\<rfloor> \<and> h = \<lfloor>of_int sh * s\<rfloor>"
    then obtain s :: rat where s: "w = \<lfloor>SW * s\<rfloor>" "h = \<lfloor>SH * s\<rfloor>"
      unfolding SW_def SH_def by blast
    then have b: "W \<le> SW * s" "SW * s < W + 1" "H \<le> SH * s" "SH * s < H + 1"
      unfolding W_def H_def by linarith+
    have "W * SH \<le> (SW * s) * SH" using b(1) pos by (simp add: mult_right_mono)
    also have "\<dots> = (SH * s) * SW" by simp
    also have "\<dots> < (H + 1) * SW" using b(4) pos by (simp add: mult_strict_right_mono)
    finally have c1: "W * SH < (H + 1) * SW" .
    have "H * SW \<le> (SH * s) * SW" using b(3) pos by (simp add: mult_right_mono)
    also have "\<dots> = (SW * s) * SH" by simp
    also have "\<dots> < (W + 1) * SH" using b(2) pos by (simp add: mult_strict_right_mono)
    finally have c2: "H * SW < (W + 1) * SH" .
    have "(of_int (w * sh) :: rat) < of_int ((h + 1) * sw)"
      using c1 by (simp add: W_def SH_def H_def SW_def)
    then have i1: "w * sh < (h + 1) * sw" by (simp only: of_int_less_iff)
    have "(of_int (h * sw) :: rat) < of_int ((w + 1) * sh)"
      using c2 by (simp add: W_def SH_def H_def SW_def)
    then have i2: "h * sw < (w + 1) * sh" by (simp only: of_int_less_iff)
    from i1 i2 show "floors_of_common_scale (sw, sh) (w, h)"
      by (simp add: floors_of_common_scale_def)
  }
qed

lemma spec_new_dimensions_div:
  fixes ow oh tw th :: int
  assumes "0 < ow" "0 < oh"
  defines "k \<equiv> min (tw * oh) (ow * th)"
  shows "spec_new_dimensions (ow, oh) tw th = (k div oh, k div ow)"
    and "of_int ow * spec_scale (ow, oh) tw th = (of_int k :: rat) / of_int oh"
    and "of_int oh * spec_scale (ow, oh) tw th = (of_int k :: rat) / of_int ow"
proof -
  define OW OH TW TH :: rat
    where "OW = of_int ow" and "OH = of_int oh" and "TW = of_int tw" and "TH = of_int th"
  have pos: "0 < OW" "0 < OH" using assms(1,2) by (simp_all add: OW_def OH_def)
  define s where "s = spec_scale (ow, oh) tw th"
  have s: "s = min (TW / OW) (TH / OH)"
    by (simp add: s_def spec_scale_def OW_def OH_def TW_def TH_def)
  define K :: rat where "K = of_int k"
  have K: "K = min (TW * OH) (OW * TH)"
    by (simp add: K_def k_def TW_def OH_def OW_def TH_def of_int_min)
  have ab: "TW / OW \<le> TH / OH \<longleftrightarrow> TW * OH \<le> OW * TH"
    using pos by (simp add: field_simps)
  have sK: "s = K / (OW * OH)"
  proof (cases "TW / OW \<le> TH / OH")
    case True
    then have "s = TW / OW" "K = TW * OH" using ab by (simp_all add: s K)
    then show ?thesis using pos by simp
  next
    case False
    then have "s = TH / OH" "K = OW * TH" using ab by (simp_all add: s K)
    then show ?thesis using pos by simp
  qed
  show w: "of_int ow * spec_scale (ow, oh) tw th = (of_int k :: rat) / of_int oh"
    using pos sK by (simp add: s_def [symmetric] OW_def [symmetric] OH_def [symmetric] K_def [symmetric])
  show h: "of_int oh * spec_scale (ow, oh) tw th = (of_int k :: rat) / of_int ow"
    using pos sK by (simp add: s_def [symmetric] OW_def [symmetric] OH_def [symmetric] K_def [symmetric])
  show "spec_new_dimensions (ow, oh) tw th = (k div oh, k div ow)"
    by (simp add: spec_new_dimensions_def w h floor_divide_of_int_eq)
qed

section \<open>Runs of the float model on numerals\<close>

lemma round_half_even_eqI:
  assumes "of_int m - 1 / 2 < r" and "r < of_int m + 1 / 2"
  shows "round_half_even r = m"
proof -
  have cases: "\<lfloor>r\<rfloor> = m \<or> \<lfloor>r\<rfloor> = m - 1"
  proof -
    have lo: "of_int (m - 1) \<le> r" and hi: "r < of_int m + 1" using assms by simp_all
    from lo have "m - 1 \<le> \<lfloor>r\<rfloor>" by (simp only: le_floor_iff)
    moreover from hi have "\<lfloor>r\<rfloor> \<le> m" by (simp only: floor_le_iff)
    ultimately show ?thesis by linarith
  qed
  then show ?thesis
  proof
    assume f: "\<lfloor>r\<rfloor> = m"
    with assms(2) have "r - of_int \<lfloor>r\<rfloor> < 1 / 2" by simp
    with f show ?thesis by (simp add: round_half_even_def)
  next
    assume f: "\<lfloor>r\<rfloor> = m - 1"
    with assms(1) have "1 / 2 < r - of_int \<lfloor>r\<rfloor>" by simp
    with f show ?thesis by (simp add: round_half_even_def Let_def)
  qed
qed

lemma round_half_even_tie:
  assumes "r = of_int m - 1 / 2" and "even m"
  shows "round_half_even r = m"
proof -
  have "of_int (m - 1) \<le> r" and "r < of_int (m - 1) + 1" using assms(1) by simp_all
  then have f: "\<lfloor>r\<rfloor> = m - 1" by (simp only: floor_unique)
  have d: "r - of_int (m - 1) = 1 / 2" using assms(1) by simp
  show ?thesis using assms(2) unfolding round_half_even_def Let_def f d by simp
qed

lemma fl_eval:
  assumes "2 powi e \<le> x" and "x < 2 powi (e + 1)" and "- 1022 \<le> e"
    and "of_int m - 1 / 2 < x / 2 powi (e - 52)" and "x / 2 powi (e - 52) < of_int m + 1 / 2"
  shows "fl x = of_int m * 2 powi (e - 52)"
proof -
  have pos: "0 < x" using assms(1) by (rule less_le_trans [rotated]) simp
  have "ilog2 x = e" using pos assms(1,2) by (rule ilog2_unique)
  then have u: "ulp x = 2 powi (e - 52)"
    using pos assms(3) by (simp add: ulp_def max_def)
  have "round_half_even (x / 2 powi (e - 52)) = m"
    using assms(4,5) by (rule round_half_even_eqI)
  then show ?thesis using pos by (simp add: fl_def u)
qed

lemma fl_eval_tie:
  assumes "2 powi e \<le> x" and "x < 2 powi (e + 1)" and "- 1022 \<le> e"
    and "x / 2 powi (e - 52) = of_int m - 1 / 2" and "even m"
  shows "fl x = of_int m * 2 powi (e - 52)"
proof -
  have pos: "0 < x" using assms(1) by (rule less_le_trans [rotated]) simp
  have "ilog2 x = e" using pos assms(1,2) by (rule ilog2_unique)
  then have u: "ulp x = 2 powi (e - 52)"
    using pos assms(3) by (simp add: ulp_def max_def)
  have "round_half_even (x / 2 powi (e - 52)) = m"
    using assms(4,5) by (rule round_half_even_tie)
  then show ?thesis using pos by (simp add: fl_def u)
qed

lemma truediv_eval:
  assumes "b \<noteq> 0" and "fl (of_int a / of_int b) = q" and "\<bar>q\<bar> \<le> 2 ^ 30"
  shows "truediv a b = Inr q"
  using assms not_is_inf_small [of q] by (simp add: truediv_def)

lemma int_mul_float_eval:
  assumes "\<bar>n\<bar> < 2 ^ 30" and "fl (of_int n * x) = p"
  shows "int_mul_float n x = Inr p"
proof -
  have "\<bar>n\<bar> < 2 ^ 53" using assms(1) by simp
  then have "fl (of_int n) = of_int n" by (rule fl_of_int)
  moreover have "\<not> is_inf (of_int n)"
  proof (rule not_is_inf_small)
    have "\<bar>of_int n :: rat\<bar> = of_int \<bar>n\<bar>" by simp
    also have "\<dots> \<le> 2 ^ 30" using assms(1) by simp
    finally show "\<bar>of_int n :: rat\<bar> \<le> 2 ^ 30" .
  qed
  ultimately show ?thesis using assms(2) by (simp add: int_mul_float_def float_of_int_def)
qed

lemma int_of_float_eval:
  assumes "0 \<le> p" and "p \<le> 2 ^ 30" and "of_int m \<le> p" and "p < of_int m + 1"
  shows "int_of_float p = Inr m"
proof -
  have "\<lfloor>p\<rfloor> = m" using assms(3,4) by (simp add: floor_eq_iff)
  then show ?thesis using assms(1,2) not_is_inf_small [of p] by (simp add: int_of_float_def)
qed

lemma fl_thumb_wr: "fl (500 / 19) = 7407236229227789 / 281474976710656"
  using fl_eval [of 4 "500 / 19" 7407236229227789] by (simp add: power_int_minus_divide)

lemma fl_thumb_w: "fl (19 * (7407236229227789 / 281474976710656)) = 8796093022207999 / 17592186044416"
  using fl_eval [of 8 "19 * (7407236229227789 / 281474976710656)" 8796093022207999] by (simp add: power_int_minus_divide)

lemma new_dimensions_thumb: "new_dimensions (19, 19) 500 500 = Inr (499, 499)"
proof -
  have wr: "truediv 500 19 = Inr (7407236229227789 / 281474976710656)"
    using fl_thumb_wr by (intro truediv_eval) simp_all
  have hr: "truediv 500 19 = Inr (7407236229227789 / 281474976710656)"
    using fl_thumb_wr by (intro truediv_eval) simp_all
  have sc: "min (7407236229227789 / 281474976710656) (7407236229227789 / 281474976710656) = (7407236229227789 / 281474976710656 :: rat)" by simp
  have w: "int_mul_float 19 (7407236229227789 / 281474976710656) = Inr (8796093022207999 / 17592186044416)"
    using fl_thumb_w by (intro int_mul_float_eval) simp_all
  have h: "int_mul_float 19 (7407236229227789 / 281474976710656) = Inr (8796093022207999 / 17592186044416)"
    using fl_thumb_w by (intro int_mul_float_eval) simp_all
  have nw: "int_of_float (8796093022207999 / 17592186044416) = Inr 499"
    by (intro int_of_float_eval) simp_all
  have nh: "int_of_float (8796093022207999 / 17592186044416) = Inr 499"
    by (intro int_of_float_eval) simp_all
  show ?thesis by (simp add: new_dimensions_def wr hr sc w h nw nh del: min_less_iff_conj)
qed

lemma fl_wide_wr: "fl (108 / 105) = 289517118902389 / 281474976710656"
  using fl_eval [of 0 "108 / 105" 4632273902438224] by (simp add: power_int_minus_divide)

lemma fl_wide_hr: "fl (170 / 70) = 5468656690378459 / 2251799813685248"
  using fl_eval [of 1 "170 / 70" 5468656690378459] by (simp add: power_int_minus_divide)

lemma fl_wide_w: "fl (105 * (289517118902389 / 281474976710656)) = 7599824371187711 / 70368744177664"
  using fl_eval [of 6 "105 * (289517118902389 / 281474976710656)" 7599824371187711] by (simp add: power_int_minus_divide)

lemma fl_wide_h: "fl (70 * (289517118902389 / 281474976710656)) = 72"
proof -
  have "fl (70 * (289517118902389 / 281474976710656))
          = of_int 5066549580791808 * 2 powi (6 - 52)"
    by (rule fl_eval_tie) (simp_all add: power_int_minus_divide)
  also have "\<dots> = 72" by (simp add: power_int_minus_divide)
  finally show ?thesis .
qed

lemma new_dimensions_wide: "new_dimensions (105, 70) 108 170 = Inr (107, 72)"
proof -
  have wr: "truediv 108 105 = Inr (289517118902389 / 281474976710656)"
    using fl_wide_wr by (intro truediv_eval) simp_all
  have hr: "truediv 170 70 = Inr (5468656690378459 / 2251799813685248)"
    using fl_wide_hr by (intro truediv_eval) simp_all
  have sc: "min (289517118902389 / 281474976710656) (5468656690378459 / 2251799813685248) = (289517118902389 / 281474976710656 :: rat)" by simp
  have w: "int_mul_float 105 (289517118902389 / 281474976710656) = Inr (7599824371187711 / 70368744177664)"
    using fl_wide_w by (intro int_mul_float_eval) simp_all
  have h: "int_mul_float 70 (289517118902389 / 281474976710656) = Inr 72"
    using fl_wide_h by (intro int_mul_float_eval) simp_all
  have nw: "int_of_float (7599824371187711 / 70368744177664) = Inr 107"
    by (intro int_of_float_eval) simp_all
  have nh: "int_of_float 72 = Inr 72"
    by (intro int_of_float_eval) simp_all
  show ?thesis by (simp add: new_dimensions_def wr hr sc w h nw nh del: min_less_iff_conj)
qed

lemma fl_photo_wr: "fl (500 / 2000) = 1 / 4"
  using fl_eval [of "- 2" "500 / 2000" 4503599627370496] by (simp add: power_int_minus_divide)

lemma fl_photo_hr: "fl (300 / 1000) = 5404319552844595 / 18014398509481984"
  using fl_eval [of "- 2" "300 / 1000" 5404319552844595] by (simp add: power_int_minus_divide)

lemma fl_photo_w: "fl (2000 * (1 / 4)) = 500"
  using fl_eval [of 8 "2000 * (1 / 4)" 8796093022208000] by (simp add: power_int_minus_divide)

lemma fl_photo_h: "fl (1000 * (1 / 4)) = 250"
  using fl_eval [of 7 "1000 * (1 / 4)" 8796093022208000] by (simp add: power_int_minus_divide)

lemma new_dimensions_photo: "new_dimensions (2000, 1000) 500 300 = Inr (500, 250)"
proof -
  have wr: "truediv 500 2000 = Inr (1 / 4)"
    using fl_photo_wr by (intro truediv_eval) simp_all
  have hr: "truediv 300 1000 = Inr (5404319552844595 / 18014398509481984)"
    using fl_photo_hr by (intro truediv_eval) simp_all
  have sc: "min (1 / 4) (5404319552844595 / 18014398509481984) = (1 / 4 :: rat)" by simp
  have w: "int_mul_float 2000 (1 / 4) = Inr 500"
    using fl_photo_w by (intro int_mul_float_eval) simp_all
  have h: "int_mul_float 1000 (1 / 4) = Inr 250"
    using fl_photo_h by (intro int_mul_float_eval) simp_all
  have nw: "int_of_float 500 = Inr 500"
    by (intro int_of_float_eval) simp_all
  have nh: "int_of_float 250 = Inr 250"
    by (intro int_of_float_eval) simp_all
  show ?thesis by (simp add: new_dimensions_def wr hr sc w h nw nh del: min_less_iff_conj)
qed




lemma bitmap_resize_to_fit:
  assumes "new_dimensions sz tw th = Inr (nw, nh)" and "0 < nw" and "0 < nh"
  shows "resize_image_to_fit (bitmap_pillow disk) (Bitmap sz m) tw th = Inr (Bitmap (nw, nh) m)"
  using assms by (simp add: resize_image_to_fit_def bitmap_pillow_def)

section \<open>The resizer\<close>

text \<open>
  Claim C2.  For positive source dimensions and positive target bounds, all at most
  \<open>2 ^ 24\<close>, the resizer calls \<open>resize\<close> with dimensions that are each either the exact
  \<open>floor(src * scale)\<close> of the specification or, only where \<open>src * scale\<close> is an integer in
  exact arithmetic, one less (the product computed in binary64 can fall just below that
  integer).  The scale is not capped at 1: one of the dimensions comes within one pixel of
  its target bound, and a source smaller than the box in both directions is never made
  smaller.
\<close>

theorem resize_dimensions:
  assumes "im_size L img = (ow, oh)"
    and "0 < ow" "ow \<le> 2 ^ 24" "0 < oh" "oh \<le> 2 ^ 24"
    and "0 < tw" "tw \<le> 2 ^ 24" "0 < th" "th \<le> 2 ^ 24"
  shows "\<exists>nw nh. resize_image_to_fit L img tw th = resize L img (nw, nh) LANCZOS
           \<and> (nw = fst (spec_new_dimensions (ow, oh) tw th)
                \<or> (nw = fst (spec_new_dimensions (ow, oh) tw th) - 1
                    \<and> of_int ow * spec_scale (ow, oh) tw th
                        = of_int (fst (spec_new_dimensions (ow, oh) tw th))))
           \<and> (nh = snd (spec_new_dimensions (ow, oh) tw th)
                \<or> (nh = snd (spec_new_dimensions (ow, oh) tw th) - 1
                    \<and> of_int oh * spec_scale (ow, oh) tw th
                        = of_int (snd (spec_new_dimensions (ow, oh) tw th))))
           \<and> (tw - 1 \<le> nw \<or> th - 1 \<le> nh)
           \<and> (ow < tw \<and> oh < th \<longrightarrow> ow \<le> nw \<and> oh \<le> nh)"
proof -
  define k where "k = min (tw * oh) (ow * th)"
  from new_dimensions_pos [OF assms(2-9)] obtain nw nh where
    nd: "new_dimensions (ow, oh) tw th = Inr (nw, nh)"
    and w: "nw = k div oh \<or> (oh dvd k \<and> nw = k div oh - 1)"
    and h: "nh = k div ow \<or> (ow dvd k \<and> nh = k div ow - 1)"
    unfolding k_def by blast
  note sp = spec_new_dimensions_div [OF assms(2,4), of tw th, folded k_def]
  have rs: "resize_image_to_fit L img tw th = resize L img (nw, nh) LANCZOS"
    using nd assms(1) by (simp add: resize_image_to_fit_def)
  have dvd_exact: "(of_int k :: rat) / of_int d = of_int (k div d)" if "d dvd k" "0 < d" for d
  proof -
    from that(1) have "k = k div d * d" by simp
    then have "(of_int k :: rat) = of_int (k div d) * of_int d"
      by (metis of_int_mult)
    then show ?thesis using that(2) by simp
  qed
  have cw: "nw = fst (spec_new_dimensions (ow, oh) tw th)
            \<or> (nw = fst (spec_new_dimensions (ow, oh) tw th) - 1
                \<and> of_int ow * spec_scale (ow, oh) tw th
                    = (of_int (fst (spec_new_dimensions (ow, oh) tw th)) :: rat))"
    using w dvd_exact [of oh] assms(4) by (auto simp add: sp)
  have ch: "nh = snd (spec_new_dimensions (ow, oh) tw th)
            \<or> (nh = snd (spec_new_dimensions (ow, oh) tw th) - 1
                \<and> of_int oh * spec_scale (ow, oh) tw th
                    = (of_int (snd (spec_new_dimensions (ow, oh) tw th)) :: rat))"
    using h dvd_exact [of ow] assms(2) by (auto simp add: sp)
  have fill: "tw - 1 \<le> nw \<or> th - 1 \<le> nh"
  proof (cases "tw * oh \<le> ow * th")
    case True
    then have "k = tw * oh" by (simp add: k_def)
    then have "k div oh = tw" using assms(4) by simp
    with w show ?thesis by auto
  next
    case False
    then have "k = ow * th" by (simp add: k_def)
    then have "k div ow = th" using assms(2) by simp
    with h show ?thesis by auto
  qed
  have up: "ow \<le> nw \<and> oh \<le> nh" if lt: "ow < tw" "oh < th"
  proof -
    have "ow * oh < tw * oh" using lt(1) assms(4) by simp
    moreover have "ow * oh < ow * th" using lt(2) assms(2) by simp
    ultimately have kgt: "ow * oh < k" by (simp add: k_def)
    have "(ow * oh) div oh \<le> k div oh"
      using kgt assms(4) by (intro zdiv_mono1) simp_all
    then have w0: "ow \<le> k div oh" using assms(4) by simp
    have "(ow * oh) div ow \<le> k div ow"
      using kgt assms(2) by (intro zdiv_mono1) simp_all
    then have h0: "oh \<le> k div ow" using assms(2) by simp
    have w1: "ow < k div oh" if "oh dvd k"
    proof -
      from that have "k div oh * oh = k" by simp
      with kgt have "ow * oh < k div oh * oh" by simp
      then show ?thesis using assms(4) by (simp add: mult_less_cancel_right)
    qed
    have h1: "oh < k div ow" if "ow dvd k"
    proof -
      from that have "k div ow * ow = k" by simp
      with kgt have "oh * ow < k div ow * ow" by (simp add: mult.commute)
      then show ?thesis using assms(2) by (simp add: mult_less_cancel_right)
    qed
    from w w0 w1 have "ow \<le> nw" by auto
    moreover from h h0 h1 have "oh \<le> nh" by auto
    ultimately show ?thesis by simp
  qed
  from rs cw ch fill up show ?thesis by blast
qed

theorem resize_dimensions_witness:
  "im_size (bitmap_pillow Map.empty) (Bitmap (19, 19) ''RGB'') = (19, 19) \<and>
   (0::int) < 19 \<and> (19::int) \<le> 2 ^ 24 \<and> (0::int) < 500 \<and> (500::int) \<le> 2 ^ 24 \<and>
   (\<exists>nw nh. resize_image_to_fit (bitmap_pillow Map.empty) (Bitmap (19, 19) ''RGB'') 500 500
               = resize (bitmap_pillow Map.empty) (Bitmap (19, 19) ''RGB'') (nw, nh) LANCZOS
            \<and> (499 \<le> nw \<or> 499 \<le> nh) \<and> 19 \<le> nw \<and> 19 \<le> nh)"
proof -
  have s: "im_size (bitmap_pillow Map.empty) (Bitmap (19, 19) ''RGB'') = (19, 19)"
    by (simp add: bitmap_pillow_def)
  from resize_dimensions [OF s, of 500 500] s show ?thesis by simp blast
qed

theorem resize_differs_from_exact_formula:
  "resize_image_to_fit (bitmap_pillow Map.empty) (Bitmap (19, 19) ''RGB'') 500 500
     = Inr (Bitmap (499, 499) ''RGB'') \<and>
   spec_new_dimensions (19, 19) 500 500 = (500, 500)"
  using spec_new_dimensions_div(1) [of 19 19 500 500]
  by (simp add: bitmap_resize_to_fit [OF new_dimensions_thumb])

text \<open>
  Claim C5.  When the width or the height of the source image is 0, the resizer
  raises Python's \<open>ZeroDivisionError\<close> at the division by that dimension, before it calls
  \<open>resize\<close>.  The code has no error of its own for such an image.  (The bound on the
  target width keeps the first division, which is evaluated before the division by a zero
  height, from overflowing.)
\<close>

theorem zero_dimension_raises_zero_division:
  assumes "im_size L img = (ow, oh)" and "ow = 0 \<or> oh = 0" and "\<bar>tw\<bar> \<le> 2 ^ 24"
  shows "resize_image_to_fit L img tw th = Inl ZeroDivisionError"
  using new_dimensions_zero [OF assms(2,3)] assms(1) by (simp add: resize_image_to_fit_def)

theorem zero_dimension_raises_zero_division_witness:
  "im_size (bitmap_pillow Map.empty) (Bitmap (0, 10) ''RGB'') = (0, 10) \<and>
   ((0::int) = 0 \<or> (10::int) = 0) \<and> \<bar>500 :: int\<bar> \<le> 2 ^ 24 \<and>
   resize_image_to_fit (bitmap_pillow Map.empty) (Bitmap (0, 10) ''RGB'') 500 300
     = Inl ZeroDivisionError"
proof -
  have s: "im_size (bitmap_pillow Map.empty) (Bitmap (0, 10) ''RGB'') = (0, 10)"
    by (simp add: bitmap_pillow_def)
  from zero_dimension_raises_zero_division [OF s, of 500 300] s show ?thesis by simp
qed

theorem zero_width_divides_by_zero:
  "new_dimensions (0, 10) 500 300 = Inl ZeroDivisionError \<and>
   resize_image_to_fit (bitmap_pillow Map.empty) (Bitmap (0, 10) ''RGB'') 500 300
     = Inl ZeroDivisionError"
  by (simp add: new_dimensions_def resize_image_to_fit_def bitmap_pillow_def)

text \<open>
  Claim C7.  For positive source dimensions and positive target bounds, all at most
  \<open>2 ^ 24\<close>, the resizer calls \<open>resize\<close> with a width of at most the target width and a
  height of at most the target height, and width and height are in the proportion of the
  source up to one pixel: \<open>\<bar>new_width * height - new_height * width\<bar>\<close> is at most the larger
  source dimension.
\<close>

theorem resize_fits_and_nearly_keeps_ratio:
  assumes "im_size L img = (ow, oh)"
    and "0 < ow" "ow \<le> 2 ^ 24" "0 < oh" "oh \<le> 2 ^ 24"
    and "0 < tw" "tw \<le> 2 ^ 24" "0 < th" "th \<le> 2 ^ 24"
  shows "\<exists>nw nh. resize_image_to_fit L img tw th = resize L img (nw, nh) LANCZOS
           \<and> 0 \<le> nw \<and> nw \<le> tw \<and> 0 \<le> nh \<and> nh \<le> th
           \<and> \<bar>nw * oh - nh * ow\<bar> \<le> max ow oh"
proof -
  define k where "k = min (tw * oh) (ow * th)"
  from new_dimensions_pos [OF assms(2-9)] obtain nw nh where
    nd: "new_dimensions (ow, oh) tw th = Inr (nw, nh)"
    and w: "nw = k div oh \<or> (oh dvd k \<and> nw = k div oh - 1)"
    and h: "nh = k div ow \<or> (ow dvd k \<and> nh = k div ow - 1)"
    unfolding k_def by blast
  have kpos: "0 < k" using assms(2,4,6,8) by (simp add: k_def)
  note fw = div_facts [OF assms(4) kpos w]
  note fh = div_facts [OF assms(2) kpos h]
  have "k div oh \<le> (tw * oh) div oh"
    using assms(4) by (intro zdiv_mono1) (simp_all add: k_def)
  then have wle: "nw \<le> tw" using fw(4) assms(4) by simp
  have "k div ow \<le> (ow * th) div ow"
    using assms(2) by (intro zdiv_mono1) (simp_all add: k_def)
  then have hle: "nh \<le> th" using fh(4) assms(2) by simp
  have ratio: "\<bar>nw * oh - nh * ow\<bar> \<le> max ow oh"
    using fw(2,3) fh(2,3) by linarith
  have "resize_image_to_fit L img tw th = resize L img (nw, nh) LANCZOS"
    using nd assms(1) by (simp add: resize_image_to_fit_def)
  with fw(1) fh(1) wle hle ratio show ?thesis by blast
qed

theorem resize_fits_and_nearly_keeps_ratio_witness:
  "im_size (bitmap_pillow Map.empty) (Bitmap (105, 70) ''RGB'') = (105, 70) \<and>
   (0::int) < 105 \<and> (105::int) \<le> 2 ^ 24 \<and> (0::int) < 70 \<and> (70::int) \<le> 2 ^ 24 \<and>
   (0::int) < 108 \<and> (108::int) \<le> 2 ^ 24 \<and> (0::int) < 170 \<and> (170::int) \<le> 2 ^ 24 \<and>
   (\<exists>nw nh. resize_image_to_fit (bitmap_pillow Map.empty) (Bitmap (105, 70) ''RGB'') 108 170
               = resize (bitmap_pillow Map.empty) (Bitmap (105, 70) ''RGB'') (nw, nh) LANCZOS
            \<and> 0 \<le> nw \<and> nw \<le> 108 \<and> 0 \<le> nh \<and> nh \<le> 170
            \<and> \<bar>nw * 70 - nh * 105\<bar> \<le> 105)"
proof -
  have s: "im_size (bitmap_pillow Map.empty) (Bitmap (105, 70) ''RGB'') = (105, 70)"
    by (simp add: bitmap_pillow_def)
  from resize_fits_and_nearly_keeps_ratio [OF s, of 108 170] s show ?thesis by simp
qed

theorem resize_breaks_common_scale:
  "resize_image_to_fit (bitmap_pillow Map.empty) (Bitmap (105, 70) ''RGB'') 108 170
     = Inr (Bitmap (107, 72) ''RGB'') \<and>
   \<not> floors_of_common_scale (105, 70) (107, 72)"
  by (simp add: bitmap_resize_to_fit [OF new_dimensions_wide] floors_of_common_scale_def)

section \<open>Runs with the stand-in library\<close>


lemma bitmap_mode [simp]: "im_mode (bitmap_pillow disk) (Bitmap s m) = m"
  by (simp add: bitmap_pillow_def)

lemma bitmap_size [simp]: "im_size (bitmap_pillow disk) (Bitmap s m) = s"
  by (simp add: bitmap_pillow_def)

lemma open_yes_frame:
  "Image_open (bitmap_pillow frames_on_disk) (Path ''yes.png'') = Inr (Bitmap (600, 400) ''RGBA'')"
  by (simp add: bitmap_pillow_def frames_on_disk_def)

lemma open_photo:
  "Image_open (bitmap_pillow frames_on_disk) (Stream ''photo'') = Inr (Bitmap (2000, 1000) ''RGB'')"
  by (simp add: bitmap_pillow_def frames_on_disk_def)


lemma compose_photo:
  "compose_frame (bitmap_pillow frames_on_disk) (Bitmap (2000, 1000) ''RGB'') ''yes.png''
     = Inr (Bitmap (600, 400) ''RGB'')"
  by (simp add: compose_frame_def bitmap_pillow_def frames_on_disk_def resize_image_to_fit_def
      new_dimensions_photo alpha_mask_def last_item_def center_offsets_def)



lemma create_framed_photo_no:
  "create_framed_image (bitmap_pillow frames_on_disk) (Bitmap (2000, 1000) ''RGB'') ''no.png''
     = Bitmap (600, 400) ''RGB''"
  by (simp add: create_framed_image_def compose_frame_def bitmap_pillow_def frames_on_disk_def
      resize_image_to_fit_def new_dimensions_photo alpha_mask_def last_item_def center_offsets_def)

lemma quiet_pil [simp]: "pil (quiet_world gen) = bitmap_pillow frames_on_disk"
  by (simp add: quiet_world_def)

lemma quiet_gen [simp]: "generate_content_text (quiet_world gen) = gen"
  by (simp add: quiet_world_def)

lemma quiet_names [simp]:
  "strftime_now (quiet_world gen) = ''20240102_030405''"
  "uuid4 (quiet_world gen) = ''1b4e28ba-2fa1-41d2-883f-0016d3cca427''"
  by (simp_all add: quiet_world_def)

lemma quiet_upload:
  "upload_to_gcs (quiet_world gen) i key
     = (Inr (''https://storage.googleapis.com/photo-frame-bucket/'' @ key),
        [File_saved i ''/tmp/tmpab12cd.webp'' ''WEBP'' 85 True,
         Blob_uploaded key ''/tmp/tmpab12cd.webp'', Blob_made_public key,
         File_removed ''/tmp/tmpab12cd.webp''])"
  by (simp add: upload_to_gcs_def quiet_world_def bitmap_pillow_def)

lemma holiday_is_jpg: "endswith (lower ''holiday.JPG'') ''.jpg''"
  by code_simp




lemma answer_is_maybe:
  "analyze_image_with_gemini (\<lambda>p i. Inr '' Maybe '') (Bitmap (2000, 1000) ''RGB'') = ''maybe''"
  by code_simp


section \<open>The composite\<close>

lemma compose_frameD:
  assumes "compose_frame L u p = Inr r"
  obtains frame0 frame resized canvas pasted result final_result mask where
    "Image_open L (Path p) = Inr frame0"
    "(if im_mode L frame0 \<noteq> ''RGBA'' then convert L frame0 ''RGBA'' else Inr frame0) = Inr frame"
    "resize_image_to_fit L u (fst (im_size L frame) - 100) (snd (im_size L frame) - 100) = Inr resized"
    "Image_new L ''RGBA'' (im_size L frame) [255, 255, 255, 255] = Inr canvas"
    "paste L canvas resized (Some (center_offsets (im_size L frame) (im_size L resized))) None = Inr pasted"
    "alpha_composite L pasted frame = Inr result"
    "Image_new L ''RGB'' (im_size L result) [255, 255, 255] = Inr final_result"
    "alpha_mask L result = Inr mask"
    "paste L final_result result None mask = Inr r"
  using assms unfolding compose_frame_def Let_def split_beta and_then_eq_Inr by auto












text \<open>
  Claim C6.  In a successful composite the resized source image is pasted onto the canvas at
  \<open>((frame_width - user_width) div 2, (frame_height - user_height) div 2)\<close>, where \<open>div\<close>
  rounds down as Python's \<open>//\<close> does, and the margin left of it and the margin right of it,
  and the margin above it and the margin below it, differ by at most one pixel.  The image
  returned is built from that pasted canvas.
\<close>

theorem composite_is_centered:
  assumes "compose_frame L user_image frame_path = Inr r"
  shows "\<exists>frame0 frame resized canvas pasted result final_result mask.
           Image_open L (Path frame_path) = Inr frame0 \<and>
           (if im_mode L frame0 \<noteq> ''RGBA'' then convert L frame0 ''RGBA'' else Inr frame0)
             = Inr frame \<and>
           resize_image_to_fit L user_image (fst (im_size L frame) - 100)
             (snd (im_size L frame) - 100) = Inr resized \<and>
           Image_new L ''RGBA'' (im_size L frame) [255, 255, 255, 255] = Inr canvas \<and>
           (let (fw, fh) = im_size L frame; (uw, uh) = im_size L resized;
                x = (fw - uw) div 2; y = (fh - uh) div 2
            in paste L canvas resized (Some (x, y)) None = Inr pasted \<and>
               \<bar>(fw - (x + uw)) - x\<bar> \<le> 1 \<and> \<bar>(fh - (y + uh)) - y\<bar> \<le> 1) \<and>
           alpha_composite L pasted frame = Inr result \<and>
           Image_new L ''RGB'' (im_size L result) [255, 255, 255] = Inr final_result \<and>
           alpha_mask L result = Inr mask \<and>
           paste L final_result result None mask = Inr r"
proof -
  from assms obtain frame0 frame resized canvas pasted result final_result mask where
    fr: "Image_open L (Path frame_path) = Inr frame0"
      "(if im_mode L frame0 \<noteq> ''RGBA'' then convert L frame0 ''RGBA'' else Inr frame0) = Inr frame"
    and rs: "resize_image_to_fit L user_image (fst (im_size L frame) - 100)
               (snd (im_size L frame) - 100) = Inr resized"
    and nw: "Image_new L ''RGBA'' (im_size L frame) [255, 255, 255, 255] = Inr canvas"
    and ps: "paste L canvas resized
               (Some (center_offsets (im_size L frame) (im_size L resized))) None = Inr pasted"
    and rest: "alpha_composite L pasted frame = Inr result"
      "Image_new L ''RGB'' (im_size L result) [255, 255, 255] = Inr final_result"
      "alpha_mask L result = Inr mask"
      "paste L final_result result None mask = Inr r"
    by (rule compose_frameD)
  have pc: "let (fw, fh) = im_size L frame; (uw, uh) = im_size L resized;
                x = (fw - uw) div 2; y = (fh - uh) div 2
            in paste L canvas resized (Some (x, y)) None = Inr pasted \<and>
               \<bar>(fw - (x + uw)) - x\<bar> \<le> 1 \<and> \<bar>(fh - (y + uh)) - y\<bar> \<le> 1"
    using ps by (simp add: center_offsets_def split_beta Let_def) (intro conjI; linarith)
  from fr rs nw pc rest show ?thesis by blast
qed

theorem composite_is_centered_witness:
  "compose_frame (bitmap_pillow frames_on_disk) (Bitmap (2000, 1000) ''RGB'') ''yes.png''
     = Inr (Bitmap (600, 400) ''RGB'') \<and>
   (\<exists>canvas pasted.
      resize_image_to_fit (bitmap_pillow frames_on_disk) (Bitmap (2000, 1000) ''RGB'') 500 300
        = Inr (Bitmap (500, 250) ''RGB'') \<and>
      paste (bitmap_pillow frames_on_disk) canvas (Bitmap (500, 250) ''RGB'') (Some (50, 75)) None
        = Inr pasted)"
proof -
  have rs: "resize_image_to_fit (bitmap_pillow frames_on_disk) (Bitmap (2000, 1000) ''RGB'') 500 300
              = Inr (Bitmap (500, 250) ''RGB'')"
    by (simp add: bitmap_resize_to_fit [OF new_dimensions_photo])
  from composite_is_centered [OF compose_photo] obtain frame0 frame resized canvas pasted where
    a: "Image_open (bitmap_pillow frames_on_disk) (Path ''yes.png'') = Inr frame0"
    and b: "(if im_mode (bitmap_pillow frames_on_disk) frame0 \<noteq> ''RGBA''
             then convert (bitmap_pillow frames_on_disk) frame0 ''RGBA'' else Inr frame0) = Inr frame"
    and c: "resize_image_to_fit (bitmap_pillow frames_on_disk) (Bitmap (2000, 1000) ''RGB'')
              (fst (im_size (bitmap_pillow frames_on_disk) frame) - 100)
              (snd (im_size (bitmap_pillow frames_on_disk) frame) - 100) = Inr resized"
    and d: "let (fw, fh) = im_size (bitmap_pillow frames_on_disk) frame;
                (uw, uh) = im_size (bitmap_pillow frames_on_disk) resized;
                x = (fw - uw) div 2; y = (fh - uh) div 2
            in paste (bitmap_pillow frames_on_disk) canvas resized (Some (x, y)) None = Inr pasted \<and>
               \<bar>(fw - (x + uw)) - x\<bar> \<le> 1 \<and> \<bar>(fh - (y + uh)) - y\<bar> \<le> 1"
    by blast
  from a open_yes_frame have f0: "frame0 = Bitmap (600, 400) ''RGBA''" by simp
  from b f0 have f: "frame = Bitmap (600, 400) ''RGBA''" by (simp add: bitmap_pillow_def)
  have sz: "im_size (bitmap_pillow frames_on_disk) (Bitmap s m) = s" for s m
    by (simp add: bitmap_pillow_def)
  from c rs have r: "resized = Bitmap (500, 250) ''RGB''" by (simp add: f sz)
  from d have "paste (bitmap_pillow frames_on_disk) canvas (Bitmap (500, 250) ''RGB'')
                 (Some (50, 75)) None = Inr pasted"
    by (simp add: f r sz)
  with rs compose_photo show ?thesis by blast
qed

section \<open>The verdict\<close>

text \<open>
  Claim C1.  The frame type the handler derives from the analysis is always
  \<open>yes\<close> or \<open>no\<close>, and it is \<open>yes\<close> exactly when the model answered and its answer, trimmed
  and lower-cased, is \<open>yes\<close>.  \<open>analyze_image_with_gemini\<close> itself returns \<open>no\<close> when the
  remote call raises, and otherwise the trimmed, lower-cased answer as it is.
\<close>

theorem verdict_is_yes_or_no:
  "snd (select_frame (analyze_image_with_gemini gen img)) \<in> {''yes'', ''no''} \<and>
   (snd (select_frame (analyze_image_with_gemini gen img)) = ''yes''
      \<longleftrightarrow> (\<exists>text. gen prompt img = Inr text \<and> lower (strip text) = ''yes'')) \<and>
   ((\<exists>e. gen prompt img = Inl e) \<and> analyze_image_with_gemini gen img = ''no''
      \<or> (\<exists>text. gen prompt img = Inr text
            \<and> analyze_image_with_gemini gen img = lower (strip text)))"
  by (cases "gen prompt img") (auto simp add: select_frame_def analyze_image_with_gemini_def)

theorem analysis_result_can_be_other_text:
  "analyze_image_with_gemini (\<lambda>p i. Inr '' Maybe '') (Bitmap (2000, 1000) ''RGB'') = ''maybe'' \<and>
   ''maybe'' \<noteq> ''yes'' \<and> ''maybe'' \<noteq> ''no'' \<and>
   process_photo (quiet_world (\<lambda>p i. Inr '' Maybe ''))
     \<lparr>http_method = ''POST'',
      files = [''photo'' \<mapsto> \<lparr>filename = ''holiday.JPG'', stream = ''photo''\<rparr>]\<rparr>
   = ((Json_dumps
         [(''success'', JBool True),
          (''imageUrl'', JString (''https://storage.googleapis.com/photo-frame-bucket/'' @
             storage_key ''20240102_030405'' ''1b4e28ba-2fa1-41d2-883f-0016d3cca427'' ''no'')),
          (''frameStyle'', JString ''no''),
          (''analysisResult'', JString ''maybe''),
          (''message'', JString ''Photo processed successfully with no frame'')],
       200, json_headers),
      [Classified (Bitmap (2000, 1000) ''RGB''),
       Composited (Bitmap (2000, 1000) ''RGB'') ''no.png'',
       File_saved (Bitmap (600, 400) ''RGB'') ''/tmp/tmpab12cd.webp'' ''WEBP'' 85 True,
       Blob_uploaded (storage_key ''20240102_030405'' ''1b4e28ba-2fa1-41d2-883f-0016d3cca427'' ''no'')
         ''/tmp/tmpab12cd.webp'',
       Blob_made_public (storage_key ''20240102_030405'' ''1b4e28ba-2fa1-41d2-883f-0016d3cca427'' ''no''),
       File_removed ''/tmp/tmpab12cd.webp''])"
proof -
  have hu: "handle_upload (quiet_world (\<lambda>p i. Inr '' Maybe ''))
              \<lparr>filename = ''holiday.JPG'', stream = ''photo''\<rparr>
            = (Inr (Json_dumps
                 [(''success'', JBool True),
                  (''imageUrl'', JString (''https://storage.googleapis.com/photo-frame-bucket/'' @
                     storage_key ''20240102_030405'' ''1b4e28ba-2fa1-41d2-883f-0016d3cca427'' ''no'')),
                  (''frameStyle'', JString ''no''),
                  (''analysisResult'', JString ''maybe''),
                  (''message'', JString ''Photo processed successfully with no frame'')],
                200, json_headers),
               [Classified (Bitmap (2000, 1000) ''RGB''),
                Composited (Bitmap (2000, 1000) ''RGB'') ''no.png'',
                File_saved (Bitmap (600, 400) ''RGB'') ''/tmp/tmpab12cd.webp'' ''WEBP'' 85 True,
                Blob_uploaded (storage_key ''20240102_030405'' ''1b4e28ba-2fa1-41d2-883f-0016d3cca427'' ''no'')
                  ''/tmp/tmpab12cd.webp'',
                Blob_made_public (storage_key ''20240102_030405'' ''1b4e28ba-2fa1-41d2-883f-0016d3cca427'' ''no''),
                File_removed ''/tmp/tmpab12cd.webp''])"
    by (simp add: handle_upload_def Let_def open_photo answer_is_maybe select_frame_def
        create_framed_photo_no quiet_upload)
  show ?thesis
    by (simp add: process_photo_def holiday_is_jpg hu answer_is_maybe)
qed

section \<open>The stored object\<close>





end
